theory Spec2Isabelle
  imports Complex_Main
begin

section \<open>PerformanceUtils: a shallow embedding of the load-testing engine\<close>

text \<open>
  The embedded code is the class \<open>PerformanceUtils\<close> (load, stress, spike and endurance
  profiles with their result reducers).

  The program is asynchronous TypeScript running on a single-threaded event loop.
  Between two \<open>await\<close>s a task runs without interruption; at an \<open>await\<close> it is
  suspended until the awaited promise settles. The embedding makes the environment
  explicit:
  \<^item> \<open>Date.now()\<close> and \<open>new Date()\<close> read a clock, which is a function from the
    number of readings taken so far to the value returned (milliseconds, an integer);
    every reading advances the counter \<open>tick\<close>;
  \<^item> the order in which suspended tasks are resumed, and whether an operation under
    test completed or failed, is a schedule: a list of events consumed from the front;
  \<^item> a run that never gets past an \<open>await\<close> or a loop within the schedule and clock
    given returns \<open>None\<close>.

  Numbers: counts are integers, clock values are integers, durations and rates are
  reals. Finite arithmetic is exact (rounding and overflow of doubles are not
  modelled); the special values a division by zero produces are kept, since the code
  divides by counts that can be zero.
\<close>

subsection \<open>JavaScript numbers with their special values\<close>

datatype jsnum = Num real | NaN | PInf | MInf


fun js_mul :: "jsnum \<Rightarrow> jsnum \<Rightarrow> jsnum" where
  "js_mul NaN _ = NaN"
| "js_mul _ NaN = NaN"
| "js_mul (Num a) (Num b) = Num (a * b)"
| "js_mul PInf (Num b) = (if b = 0 then NaN else if 0 < b then PInf else MInf)"
| "js_mul MInf (Num b) = (if b = 0 then NaN else if 0 < b then MInf else PInf)"
| "js_mul (Num a) PInf = (if a = 0 then NaN else if 0 < a then PInf else MInf)"
| "js_mul (Num a) MInf = (if a = 0 then NaN else if 0 < a then MInf else PInf)"
| "js_mul PInf PInf = PInf"
| "js_mul MInf MInf = PInf"
| "js_mul PInf MInf = MInf"
| "js_mul MInf PInf = MInf"

text \<open>Division; a zero divisor is the positive zero (the divisors of the code are
  counts and differences of integers).\<close>

fun js_div :: "jsnum \<Rightarrow> jsnum \<Rightarrow> jsnum" where
  "js_div NaN _ = NaN"
| "js_div _ NaN = NaN"
| "js_div (Num a) (Num b) =
     (if b \<noteq> 0 then Num (a / b)
      else if a = 0 then NaN else if 0 < a then PInf else MInf)"
| "js_div (Num a) PInf = Num 0"
| "js_div (Num a) MInf = Num 0"
| "js_div PInf (Num b) = (if 0 \<le> b then PInf else MInf)"
| "js_div MInf (Num b) = (if 0 \<le> b then MInf else PInf)"
| "js_div PInf PInf = NaN"
| "js_div PInf MInf = NaN"
| "js_div MInf PInf = NaN"
| "js_div MInf MInf = NaN"

text \<open>\<open>a >= b\<close> and \<open>a > b\<close>: false as soon as one side is NaN.\<close>

fun js_ge :: "jsnum \<Rightarrow> jsnum \<Rightarrow> bool" where
  "js_ge NaN _ = False"
| "js_ge _ NaN = False"
| "js_ge (Num a) (Num b) = (b \<le> a)"
| "js_ge PInf _ = True"
| "js_ge _ MInf = True"
| "js_ge (Num a) PInf = False"
| "js_ge MInf _ = False"

fun js_gt :: "jsnum \<Rightarrow> jsnum \<Rightarrow> bool" where
  "js_gt NaN _ = False"
| "js_gt _ NaN = False"
| "js_gt (Num a) (Num b) = (b < a)"
| "js_gt PInf PInf = False"
| "js_gt PInf _ = True"
| "js_gt MInf _ = False"
| "js_gt (Num a) MInf = True"
| "js_gt (Num a) PInf = False"

text \<open>\<open>xs.reduce((sum, x) => sum + x, 0) / xs.length\<close> on a list of integers
  (the latencies), guarded by \<open>xs.length > 0 ? ... : 0\<close> as everywhere in the code.\<close>

definition average :: "int list \<Rightarrow> real" where
  "average xs =
     (if length xs > 0 then real_of_int (foldl (\<lambda>sum t. sum + t) 0 xs) / real (length xs)
      else 0)"

text \<open>\<open>(errors / (responseTimes.length + errors)) * 100\<close>, with no guard: NaN when
  nothing was recorded.\<close>

definition error_rate :: "nat \<Rightarrow> nat \<Rightarrow> jsnum" where
  "error_rate errs successes =
     js_mul (js_div (Num (real errs)) (Num (real (successes + errs)))) (Num 100)"

subsection \<open>The metrics accumulator and the world\<close>

record metrics =
  m_responseTimes :: "int list"
  m_throughput :: "real list"
  m_errors :: nat
  m_startTime :: int
  m_endTime :: int

text \<open>The world: the clock, the number of readings taken, and \<open>this.metrics\<close>.
  The last three fields are ghost state, written by no statement of the source and
  read by none: they count the invocations of the operation under test that were
  started, that completed, and that failed.\<close>

record world =
  clock :: "nat \<Rightarrow> int"
  tick :: nat
  metrics :: metrics
  called :: nat
  resolved :: nat
  rejected :: nat

definition date_now :: "world \<Rightarrow> int \<times> world" where
  "date_now w = (clock w (tick w), w\<lparr>tick := Suc (tick w)\<rparr>)"

definition resetMetrics :: "world \<Rightarrow> world" where
  "resetMetrics w =
     w\<lparr>metrics := \<lparr>m_responseTimes = [], m_throughput = [], m_errors = 0,
                    m_startTime = 0, m_endTime = 0\<rparr>\<rparr>"

text \<open>The world in which a fresh \<open>PerformanceUtils\<close> object (constructor) meets
  the clock \<open>c\<close>.\<close>

definition initial_world :: "(nat \<Rightarrow> int) \<Rightarrow> world" where
  "initial_world c =
     \<lparr>clock = c, tick = 0,
      metrics = \<lparr>m_responseTimes = [], m_throughput = [], m_errors = 0,
                 m_startTime = 0, m_endTime = 0\<rparr>,
      called = 0, resolved = 0, rejected = 0\<rparr>"

subsection \<open>Events of the event loop\<close>

datatype outcome = Resolved | Rejected

text \<open>\<open>Settle i out\<close>: the promise actor \<open>i\<close> awaits settles (the operation under
  test with outcome \<open>out\<close>, or the think-time timer). \<open>Tick\<close>: the interval timer of the
  endurance profile fires. \<open>Wake\<close>: the timeout the main task awaits fires.\<close>

datatype event = Settle nat outcome | Tick | Wake

subsection \<open>simulateUser\<close>

text \<open>An actor is suspended at one of the two \<open>await\<close>s of \<open>simulateUser\<close>, or has
  returned. \<open>AwaitOp startTime\<close> is the \<open>await testFunction()\<close> inside \<open>try\<close>. The
  record holds the parameters of the call and the point of suspension.\<close>

datatype await_state = AwaitOp int | AwaitThink | Exited

record actor =
  a_thinkTime :: real
  a_endTime :: real
  a_state :: await_state

text \<open>From the loop head \<open>while (Date.now() < endTime)\<close> to the next \<open>await\<close>: either
  the loop ends, or \<open>startTime\<close> is read and the operation under test is invoked.\<close>

definition user_loop :: "real \<Rightarrow> world \<Rightarrow> await_state \<times> world" where
  "user_loop deadline w =
     (case date_now w of (now, w1) \<Rightarrow>
        if real_of_int now < deadline then
          (case date_now w1 of (start, w2) \<Rightarrow>
             (AwaitOp start, w2\<lparr>called := Suc (called w2)\<rparr>))
        else (Exited, w1))"

text \<open>The body after \<open>await testFunction()\<close>: the \<open>try\<close> branch on completion, the
  \<open>catch\<close> branch on failure.\<close>

definition record_outcome :: "outcome \<Rightarrow> int \<Rightarrow> world \<Rightarrow> world" where
  "record_outcome out start w =
     (case out of
        Resolved \<Rightarrow>
          (case date_now w of (now, w1) \<Rightarrow>
             w1\<lparr>metrics := (metrics w1)\<lparr>m_responseTimes :=
                    m_responseTimes (metrics w1) @ [now - start]\<rparr>,
                resolved := Suc (resolved w1)\<rparr>)
      | Rejected \<Rightarrow>
          w\<lparr>metrics := (metrics w)\<lparr>m_errors := m_errors (metrics w) + 1\<rparr>,
            rejected := Suc (rejected w)\<rparr>)"

definition user_resume :: "outcome \<Rightarrow> actor \<Rightarrow> world \<Rightarrow> actor \<times> world" where
  "user_resume out a w =
     (case a_state a of
        AwaitOp start \<Rightarrow>
          if a_thinkTime a > 0 then (a\<lparr>a_state := AwaitThink\<rparr>, record_outcome out start w)
          else (case user_loop (a_endTime a) (record_outcome out start w) of
                  (s, w1) \<Rightarrow> (a\<lparr>a_state := s\<rparr>, w1))
      | AwaitThink \<Rightarrow>
          (case user_loop (a_endTime a) w of (s, w1) \<Rightarrow> (a\<lparr>a_state := s\<rparr>, w1))
      | Exited \<Rightarrow> (a, w))"

text \<open>\<open>this.simulateUser(testFunction, thinkTime, endTime)\<close>: the call runs up to the
  first \<open>await\<close> and returns the promise.\<close>

definition simulateUser :: "real \<Rightarrow> real \<Rightarrow> world \<Rightarrow> actor \<times> world" where
  "simulateUser thinkTime deadline w =
     (case user_loop deadline w of
        (s, w1) \<Rightarrow> (\<lparr>a_thinkTime = thinkTime, a_endTime = deadline, a_state = s\<rparr>, w1))"

text \<open>One event delivered to the actors of a run.\<close>

definition deliver :: "event \<Rightarrow> actor list \<Rightarrow> world \<Rightarrow> actor list \<times> world" where
  "deliver e actors w =
     (case e of
        Settle i out \<Rightarrow>
          if i < length actors then
            (case user_resume out (actors ! i) w of (a, w1) \<Rightarrow> (actors[i := a], w1))
          else (actors, w)
      | _ \<Rightarrow> (actors, w))"

definition all_exited :: "actor list \<Rightarrow> bool" where
  "all_exited actors = list_all (\<lambda>a. a_state a = Exited) actors"

text \<open>\<open>await Promise.all(userPromises)\<close>: events are delivered until every actor has
  returned.\<close>

fun await_all :: "event list \<Rightarrow> actor list \<Rightarrow> world \<Rightarrow> (event list \<times> actor list \<times> world) option"
where
  "await_all [] actors w = (if all_exited actors then Some ([], actors, w) else None)"
| "await_all (e # es) actors w =
     (if all_exited actors then Some (e # es, actors, w)
      else (case deliver e actors w of (actors1, w1) \<Rightarrow> await_all es actors1 w1))"

text \<open>\<open>await new Promise(resolve => setTimeout(resolve, rampUpInterval))\<close> in the main
  task: events are delivered until the timeout fires.\<close>

fun await_timeout :: "event list \<Rightarrow> actor list \<Rightarrow> world \<Rightarrow> (event list \<times> actor list \<times> world) option"
where
  "await_timeout [] actors w = None"
| "await_timeout (e # es) actors w =
     (if e = Wake then Some (es, actors, w)
      else (case deliver e actors w of (actors1, w1) \<Rightarrow> await_timeout es actors1 w1))"

text \<open>\<open>for (let i = 0; i < users; i++) userPromises.push(this.simulateUser(...))\<close>.\<close>

fun spawn_users :: "nat \<Rightarrow> real \<Rightarrow> real \<Rightarrow> actor list \<Rightarrow> world \<Rightarrow> actor list \<times> world" where
  "spawn_users 0 thinkTime deadline userPromises w = (userPromises, w)"
| "spawn_users (Suc n) thinkTime deadline userPromises w =
     (case simulateUser thinkTime deadline w of
        (a, w1) \<Rightarrow> spawn_users n thinkTime deadline (userPromises @ [a]) w1)"

subsection \<open>Load profile\<close>

record load_options =
  lo_duration :: real
  lo_users :: int
  lo_rampUpTime :: "real option"
  lo_thinkTime :: "real option"

record LoadTestResult =
  lr_testType :: string
  lr_totalRequests :: nat
  lr_successfulRequests :: nat
  lr_failedRequests :: nat
  lr_avgResponseTime :: real
  lr_minResponseTime :: int
  lr_maxResponseTime :: int
  lr_errorRate :: real
  lr_throughput :: jsnum
  lr_duration :: real
  lr_timestamp :: int

text \<open>\<open>Math.min(...xs)\<close> and \<open>Math.max(...xs)\<close> behind the guard \<open>xs.length > 0 ? ... : 0\<close>.\<close>

definition min_or_zero :: "int list \<Rightarrow> int" where
  "min_or_zero xs = (case xs of [] \<Rightarrow> 0 | x # ys \<Rightarrow> fold min ys x)"

definition max_or_zero :: "int list \<Rightarrow> int" where
  "max_or_zero xs = (case xs of [] \<Rightarrow> 0 | x # ys \<Rightarrow> fold max ys x)"

definition generateLoadTestResult :: "string \<Rightarrow> world \<Rightarrow> LoadTestResult \<times> world" where
  "generateLoadTestResult testType w =
     (let m = metrics w;
          totalRequests = length (m_responseTimes m) + m_errors m;
          avgResponseTime = average (m_responseTimes m);
          minResponseTime = min_or_zero (m_responseTimes m);
          maxResponseTime = max_or_zero (m_responseTimes m);
          errorRate = (if totalRequests > 0
                       then (real (m_errors m) / real totalRequests) * 100 else 0);
          elapsed = real_of_int (m_endTime m - m_startTime m) / 1000;
          throughput = js_div (Num (real totalRequests)) (Num elapsed)
      in case date_now w of (now, w1) \<Rightarrow>
        (\<lparr>lr_testType = testType,
          lr_totalRequests = totalRequests,
          lr_successfulRequests = length (m_responseTimes m),
          lr_failedRequests = m_errors m,
          lr_avgResponseTime = avgResponseTime,
          lr_minResponseTime = minResponseTime,
          lr_maxResponseTime = maxResponseTime,
          lr_errorRate = errorRate,
          lr_throughput = throughput,
          lr_duration = elapsed,
          lr_timestamp = now\<rparr>, w1))"

text \<open>The main loop of \<open>loadTest\<close>. It reads the clock at every turn; it suspends only
  in the ramp-up branch, so once every user is launched (or with no ramp-up) it spins
  until the deadline without letting any actor run.\<close>

partial_function (option) load_loop ::
  "int \<Rightarrow> real \<Rightarrow> real \<Rightarrow> jsnum \<Rightarrow> nat \<Rightarrow> event list \<Rightarrow> actor list \<Rightarrow> world
     \<Rightarrow> (event list \<times> actor list \<times> world) option"
where
  "load_loop users thinkTime deadline rampUpInterval activeUsers es userPromises w =
     (if real_of_int (fst (date_now w)) < deadline then
        (if int activeUsers < users then
           (case simulateUser thinkTime deadline (snd (date_now w)) of (a, w2) \<Rightarrow>
              if js_gt rampUpInterval (Num 0) then
                (case await_timeout es (userPromises @ [a]) w2 of
                   None \<Rightarrow> None
                 | Some (es1, actors1, w3) \<Rightarrow>
                     load_loop users thinkTime deadline rampUpInterval (Suc activeUsers)
                       es1 actors1 w3)
              else load_loop users thinkTime deadline rampUpInterval (Suc activeUsers)
                     es (userPromises @ [a]) w2)
         else load_loop users thinkTime deadline rampUpInterval activeUsers
                es userPromises (snd (date_now w)))
      else Some (es, userPromises, snd (date_now w)))"

declare load_loop.simps [code]

definition loadTest ::
  "load_options \<Rightarrow> event list \<Rightarrow> world \<Rightarrow> (LoadTestResult \<times> event list \<times> world) option"
where
  "loadTest options es w0 =
     (case date_now (resetMetrics w0) of (t0, w1) \<Rightarrow>
      case date_now (w1\<lparr>metrics := (metrics w1)\<lparr>m_startTime := t0\<rparr>\<rparr>) of (t1, w3) \<Rightarrow>
        (let duration = lo_duration options;
             users = lo_users options;
             rampUpTime = (case lo_rampUpTime options of None \<Rightarrow> 0 | Some v \<Rightarrow> v);
             thinkTime = (case lo_thinkTime options of None \<Rightarrow> 0 | Some v \<Rightarrow> v);
             deadline = real_of_int t1 + duration * 1000;
             rampUpInterval =
               (if rampUpTime > 0
                then js_div (Num (rampUpTime * 1000)) (Num (real_of_int users)) else Num 0)
         in case load_loop users thinkTime deadline rampUpInterval 0 es [] w3 of
              None \<Rightarrow> None
            | Some (es1, userPromises, w4) \<Rightarrow>
                (case await_all es1 userPromises w4 of
                   None \<Rightarrow> None
                 | Some (es2, actors2, w5) \<Rightarrow>
                     (case date_now w5 of (t2, w6) \<Rightarrow>
                      case generateLoadTestResult ''Load Test''
                             (w6\<lparr>metrics := (metrics w6)\<lparr>m_endTime := t2\<rparr>\<rparr>) of
                        (r, w7) \<Rightarrow> Some (r, es2, w7)))))"

subsection \<open>Stress profile\<close>

record stress_options =
  so_maxUsers :: int
  so_stepSize :: int
  so_stepDuration :: real
  so_maxDuration :: real
  so_errorThreshold :: real

record sample =
  s_users :: int
  s_avgResponseTime :: real
  s_errorRate :: jsnum

record StressTestResult =
  sr_testType :: string
  sr_breakingPoint :: int
  sr_results :: "sample list"
  sr_timestamp :: int

text \<open>\<open>a || b\<close> where \<open>a\<close> is a number or \<open>undefined\<close> (\<open>None\<close>) and \<open>b\<close> a number:
  \<open>a\<close> when it is truthy (defined and not zero), else \<open>b\<close>. The source's
  \<open>x || y || 0\<close> groups to the left; the value is the first truthy operand, or the
  last one, under either grouping.\<close>

definition or_else :: "int option \<Rightarrow> int \<Rightarrow> int" where
  "or_else a b = (case a of None \<Rightarrow> b | Some v \<Rightarrow> if v \<noteq> 0 then v else b)"

definition generateStressTestResult :: "sample list \<Rightarrow> world \<Rightarrow> StressTestResult \<times> world" where
  "generateStressTestResult results w =
     (let breakingPoint =
            or_else (map_option s_users (find (\<lambda>r. js_ge (s_errorRate r) (Num 5)) results))
              (or_else (if results = [] then None else Some (s_users (last results))) 0)
      in case date_now w of (now, w1) \<Rightarrow>
        (\<lparr>sr_testType = ''Stress Test'', sr_breakingPoint = breakingPoint,
          sr_results = results, sr_timestamp = now\<rparr>, w1))"

text \<open>The body of one turn of the \<open>for\<close> loop, up to \<open>results.push\<close>.\<close>

definition stress_step :: "real \<Rightarrow> int \<Rightarrow> event list \<Rightarrow> world \<Rightarrow> (sample \<times> event list \<times> world) option"
where
  "stress_step stepDuration users es w =
     (case date_now (w\<lparr>metrics := (metrics w)\<lparr>m_responseTimes := [], m_errors := 0\<rparr>\<rparr>) of
        (stepStartTime, w2) \<Rightarrow>
          (let stepEndTime = real_of_int stepStartTime + stepDuration * 1000
           in case spawn_users (nat users) 0 stepEndTime [] w2 of (userPromises, w3) \<Rightarrow>
                (case await_all es userPromises w3 of
                   None \<Rightarrow> None
                 | Some (es1, actors1, w4) \<Rightarrow>
                     Some (\<lparr>s_users = users,
                            s_avgResponseTime = average (m_responseTimes (metrics w4)),
                            s_errorRate = error_rate (m_errors (metrics w4))
                                            (length (m_responseTimes (metrics w4)))\<rparr>,
                           es1, w4))))"

text \<open>What the \<open>for\<close> loop did (ghost): why it ended (the first conjunct of its
  condition failed, the second failed, or \<open>break\<close>), and the readings its condition
  took, in order.\<close>

datatype stop = MaxExceeded | TimeUp | ThresholdReached

record stress_trace =
  st_why :: stop
  st_checks :: "int list"

partial_function (option) stress_loop ::
  "stress_options \<Rightarrow> real \<Rightarrow> int \<Rightarrow> event list \<Rightarrow> sample list \<Rightarrow> int list \<Rightarrow> world
     \<Rightarrow> (stress_trace \<times> sample list \<times> event list \<times> world) option"
where
  "stress_loop options deadline users es results checks w =
     (if users \<le> so_maxUsers options then
        (if real_of_int (fst (date_now w)) < deadline then
           (case stress_step (so_stepDuration options) users es (snd (date_now w)) of
              None \<Rightarrow> None
            | Some (r, es1, w2) \<Rightarrow>
                if js_ge (s_errorRate r) (Num (so_errorThreshold options))
                then Some (\<lparr>st_why = ThresholdReached,
                            st_checks = checks @ [fst (date_now w)]\<rparr>,
                           results @ [r], es1, w2)
                else stress_loop options deadline (users + so_stepSize options) es1
                       (results @ [r]) (checks @ [fst (date_now w)]) w2)
         else Some (\<lparr>st_why = TimeUp, st_checks = checks @ [fst (date_now w)]\<rparr>,
                    results, es, snd (date_now w)))
      else Some (\<lparr>st_why = MaxExceeded, st_checks = checks\<rparr>, results, es, w))"

declare stress_loop.simps [code]

definition stressTest ::
  "stress_options \<Rightarrow> event list \<Rightarrow> world
     \<Rightarrow> (StressTestResult \<times> stress_trace \<times> event list \<times> world) option"
where
  "stressTest options es w0 =
     (case date_now (resetMetrics w0) of (t0, w1) \<Rightarrow>
      case date_now (w1\<lparr>metrics := (metrics w1)\<lparr>m_startTime := t0\<rparr>\<rparr>) of (t1, w3) \<Rightarrow>
        (let deadline = real_of_int t1 + so_maxDuration options * 1000
         in case stress_loop options deadline (so_stepSize options) es [] [] w3 of
              None \<Rightarrow> None
            | Some (trace, results, es1, w4) \<Rightarrow>
                (case date_now w4 of (t2, w5) \<Rightarrow>
                 case generateStressTestResult results
                        (w5\<lparr>metrics := (metrics w5)\<lparr>m_endTime := t2\<rparr>\<rparr>) of
                   (res, w6) \<Rightarrow> Some (res, trace, es1, w6))))"

subsection \<open>Spike profile\<close>

record spike_options =
  po_baseUsers :: int
  po_spikeUsers :: int
  po_baseDuration :: real
  po_spikeDuration :: real
  po_recoveryDuration :: real

text \<open>\<open>{ phase: 'Base Load', ...baseResult }\<close>: a sample with its label.\<close>

record phase_sample = sample +
  s_phase :: string

record SpikeTestResult =
  pr_testType :: string
  pr_results :: "phase_sample list"
  pr_timestamp :: int

text \<open>An actor of \<open>simulateUserPhase\<close>. Its parameter \<open>errors\<close> is a number, so the
  call receives a copy: \<open>pa_errors\<close> is the actor's own variable. Its parameter
  \<open>responseTimes\<close> is an array, shared with \<open>runPhase\<close> and the other actors: it is
  threaded through the functions below.\<close>

record phase_actor =
  pa_endTime :: real
  pa_errors :: nat
  pa_state :: await_state

definition phase_loop :: "real \<Rightarrow> world \<Rightarrow> await_state \<times> world" where
  "phase_loop deadline w =
     (case date_now w of (now, w1) \<Rightarrow>
        if real_of_int now < deadline then
          (case date_now w1 of (start, w2) \<Rightarrow>
             (AwaitOp start, w2\<lparr>called := Suc (called w2)\<rparr>))
        else (Exited, w1))"

definition simulateUserPhase :: "real \<Rightarrow> nat \<Rightarrow> world \<Rightarrow> phase_actor \<times> world" where
  "simulateUserPhase deadline errs w =
     (case phase_loop deadline w of
        (s, w1) \<Rightarrow> (\<lparr>pa_endTime = deadline, pa_errors = errs, pa_state = s\<rparr>, w1))"

definition phase_resume ::
  "outcome \<Rightarrow> phase_actor \<Rightarrow> int list \<Rightarrow> world \<Rightarrow> phase_actor \<times> int list \<times> world"
where
  "phase_resume out a responseTimes w =
     (case pa_state a of
        AwaitOp start \<Rightarrow>
          (case out of
             Resolved \<Rightarrow>
               (case date_now w of (now, w1) \<Rightarrow>
                case phase_loop (pa_endTime a) (w1\<lparr>resolved := Suc (resolved w1)\<rparr>) of
                  (s, w2) \<Rightarrow> (a\<lparr>pa_state := s\<rparr>, responseTimes @ [now - start], w2))
           | Rejected \<Rightarrow>
               (case phase_loop (pa_endTime a) (w\<lparr>rejected := Suc (rejected w)\<rparr>) of
                  (s, w1) \<Rightarrow> (a\<lparr>pa_errors := pa_errors a + 1, pa_state := s\<rparr>, responseTimes, w1)))
      | _ \<Rightarrow> (a, responseTimes, w))"

definition phase_deliver ::
  "event \<Rightarrow> phase_actor list \<Rightarrow> int list \<Rightarrow> world \<Rightarrow> phase_actor list \<times> int list \<times> world"
where
  "phase_deliver e actors responseTimes w =
     (case e of
        Settle i out \<Rightarrow>
          if i < length actors then
            (case phase_resume out (actors ! i) responseTimes w of
               (a, rts, w1) \<Rightarrow> (actors[i := a], rts, w1))
          else (actors, responseTimes, w)
      | _ \<Rightarrow> (actors, responseTimes, w))"

definition phase_exited :: "phase_actor list \<Rightarrow> bool" where
  "phase_exited actors = list_all (\<lambda>a. pa_state a = Exited) actors"

fun phase_await_all ::
  "event list \<Rightarrow> phase_actor list \<Rightarrow> int list \<Rightarrow> world
     \<Rightarrow> (event list \<times> phase_actor list \<times> int list \<times> world) option"
where
  "phase_await_all [] actors responseTimes w =
     (if phase_exited actors then Some ([], actors, responseTimes, w) else None)"
| "phase_await_all (e # es) actors responseTimes w =
     (if phase_exited actors then Some (e # es, actors, responseTimes, w)
      else (case phase_deliver e actors responseTimes w of
              (actors1, rts, w1) \<Rightarrow> phase_await_all es actors1 rts w1))"

fun spawn_phase :: "nat \<Rightarrow> real \<Rightarrow> nat \<Rightarrow> phase_actor list \<Rightarrow> world \<Rightarrow> phase_actor list \<times> world"
where
  "spawn_phase 0 deadline errs userPromises w = (userPromises, w)"
| "spawn_phase (Suc n) deadline errs userPromises w =
     (case simulateUserPhase deadline errs w of
        (a, w1) \<Rightarrow> spawn_phase n deadline errs (userPromises @ [a]) w1)"

text \<open>What a phase did (ghost): the index of the reading taken as \<open>phaseStartTime\<close>,
  the number of readings taken when \<open>Promise.all\<close> returned (the readings of the
  phase are those from \<open>sp_first\<close> up to, not including, \<open>sp_next\<close>), its deadline
  \<open>phaseEndTime\<close>, the array \<open>phaseResponseTimes\<close> as it was then, and how many
  invocations completed and failed during the phase.\<close>

record span =
  sp_first :: nat
  sp_next :: nat
  sp_deadline :: real
  sp_latencies :: "int list"
  sp_resolved :: nat
  sp_rejected :: nat

text \<open>\<open>runPhase\<close>. \<open>phaseErrors\<close> is declared with \<open>let\<close> and assigned nowhere.\<close>

definition runPhase ::
  "int \<Rightarrow> real \<Rightarrow> event list \<Rightarrow> world \<Rightarrow> (sample \<times> span \<times> event list \<times> world) option"
where
  "runPhase users duration es w =
     (case date_now w of (phaseStartTime, w1) \<Rightarrow>
        (let phaseEndTime = real_of_int phaseStartTime + duration * 1000;
             phaseResponseTimes = [];
             phaseErrors = 0
         in case spawn_phase (nat users) phaseEndTime phaseErrors [] w1 of
              (userPromises, w2) \<Rightarrow>
                (case phase_await_all es userPromises phaseResponseTimes w2 of
                   None \<Rightarrow> None
                 | Some (es1, actors1, rts, w3) \<Rightarrow>
                     Some (\<lparr>s_users = users,
                            s_avgResponseTime = average rts,
                            s_errorRate = error_rate phaseErrors (length rts)\<rparr>,
                           \<lparr>sp_first = tick w, sp_next = tick w3,
                            sp_deadline = phaseEndTime,
                            sp_latencies = rts,
                            sp_resolved = resolved w3 - resolved w,
                            sp_rejected = rejected w3 - rejected w\<rparr>,
                           es1, w3))))"

definition label :: "string \<Rightarrow> sample \<Rightarrow> phase_sample" where
  "label name r =
     \<lparr>s_users = s_users r, s_avgResponseTime = s_avgResponseTime r,
      s_errorRate = s_errorRate r, s_phase = name\<rparr>"

definition generateSpikeTestResult :: "phase_sample list \<Rightarrow> world \<Rightarrow> SpikeTestResult \<times> world" where
  "generateSpikeTestResult results w =
     (case date_now w of (now, w1) \<Rightarrow>
        (\<lparr>pr_testType = ''Spike Test'', pr_results = results, pr_timestamp = now\<rparr>, w1))"

definition spikeTest ::
  "spike_options \<Rightarrow> event list \<Rightarrow> world \<Rightarrow> (SpikeTestResult \<times> span list \<times> event list \<times> world) option"
where
  "spikeTest options es w0 =
     (case date_now (resetMetrics w0) of (t0, w1) \<Rightarrow>
        (case runPhase (po_baseUsers options) (po_baseDuration options) es
                (w1\<lparr>metrics := (metrics w1)\<lparr>m_startTime := t0\<rparr>\<rparr>) of
           None \<Rightarrow> None
         | Some (baseResult, sp1, es1, w2) \<Rightarrow>
             (case runPhase (po_spikeUsers options) (po_spikeDuration options) es1 w2 of
                None \<Rightarrow> None
              | Some (spikeResult, sp2, es2, w3) \<Rightarrow>
                  (case runPhase (po_baseUsers options) (po_recoveryDuration options) es2 w3 of
                     None \<Rightarrow> None
                   | Some (recoveryResult, sp3, es3, w4) \<Rightarrow>
                       (case date_now w4 of (t1, w5) \<Rightarrow>
                          (case generateSpikeTestResult
                                  [label ''Base Load'' baseResult,
                                   label ''Spike Load'' spikeResult,
                                   label ''Recovery'' recoveryResult]
                                  (w5\<lparr>metrics := (metrics w5)\<lparr>m_endTime := t1\<rparr>\<rparr>) of
                             (res, w6) \<Rightarrow> Some (res, [sp1, sp2, sp3], es3, w6)))))))"

subsection \<open>Endurance profile\<close>









subsection \<open>Auxiliary notions used to state and prove the properties\<close>


text \<open>A load result that reports no request at all.\<close>

definition zero_filled :: "LoadTestResult \<Rightarrow> bool" where
  "zero_filled r \<longleftrightarrow>
     lr_totalRequests r = 0 \<and> lr_successfulRequests r = 0 \<and> lr_failedRequests r = 0
   \<and> lr_avgResponseTime r = 0 \<and> lr_minResponseTime r = 0 \<and> lr_maxResponseTime r = 0
   \<and> lr_errorRate r = 0 \<and> (lr_throughput r = Num 0 \<or> lr_throughput r = NaN)"


text \<open>The arithmetic progression \<open>u, u + s, u + 2s, ...\<close> of length \<open>n\<close>.\<close>

definition arith :: "int \<Rightarrow> int \<Rightarrow> nat \<Rightarrow> int list" where
  "arith u s n = map (\<lambda>k. u + int k * s) [0..<n]"

text \<open>Invariant of the actors of \<open>simulateUser\<close>: with the ghost counters at
  \<open>c0\<close>, \<open>r0\<close>, \<open>j0\<close> when the metrics were last emptied, every completed invocation
  is one latency, every failed one is one error, and the invocations started are
  those recorded plus those in flight.\<close>

definition awaiting :: "actor \<Rightarrow> nat" where
  "awaiting a = (case a_state a of AwaitOp start \<Rightarrow> 1 | AwaitThink \<Rightarrow> 0 | Exited \<Rightarrow> 0)"

definition pending :: "actor list \<Rightarrow> nat" where
  "pending actors = sum_list (map awaiting actors)"

definition tally :: "nat \<Rightarrow> nat \<Rightarrow> nat \<Rightarrow> actor list \<Rightarrow> world \<Rightarrow> bool" where
  "tally c0 r0 j0 actors w \<longleftrightarrow>
     resolved w = r0 + length (m_responseTimes (metrics w)) \<and>
     rejected w = j0 + m_errors (metrics w) \<and>
     called w = c0 + length (m_responseTimes (metrics w)) + m_errors (metrics w) + pending actors"

text \<open>Invariant of the actors of a phase that took its first reading at index
  \<open>t0 - 1\<close>, with deadline \<open>d\<close>, clock \<open>c\<close> and \<open>n\<close> readings taken so far: an actor that
  has returned has seen a reading at or past the deadline; the start time of an
  invocation in flight and both ends of every latency are readings of the phase.\<close>

definition actor_ok :: "nat \<Rightarrow> real \<Rightarrow> (nat \<Rightarrow> int) \<Rightarrow> nat \<Rightarrow> phase_actor \<Rightarrow> bool" where
  "actor_ok t0 d c n a \<longleftrightarrow>
     pa_endTime a = d \<and> pa_state a \<noteq> AwaitThink \<and>
     (pa_state a = Exited \<longrightarrow> (\<exists>k. t0 \<le> k \<and> k < n \<and> d \<le> real_of_int (c k))) \<and>
     (\<forall>st. pa_state a = AwaitOp st \<longrightarrow> (\<exists>k. t0 \<le> k \<and> k < n \<and> st = c k))"

definition latency_ok :: "nat \<Rightarrow> (nat \<Rightarrow> int) \<Rightarrow> nat \<Rightarrow> int \<Rightarrow> bool" where
  "latency_ok t0 c n l \<longleftrightarrow> (\<exists>a b. t0 \<le> a \<and> a < b \<and> b < n \<and> l = c b - c a)"

definition phase_inv ::
  "nat \<Rightarrow> real \<Rightarrow> (nat \<Rightarrow> int) \<Rightarrow> nat \<Rightarrow> phase_actor list \<Rightarrow> int list \<Rightarrow> world \<Rightarrow> bool" where
  "phase_inv t0 d c r0 actors rts w \<longleftrightarrow>
     clock w = c \<and> t0 \<le> tick w \<and> resolved w = r0 + length rts \<and>
     (\<forall>a \<in> set actors. actor_ok t0 d c (tick w) a) \<and>
     (\<forall>l \<in> set rts. latency_ok t0 c (tick w) l)"


section \<open>Properties\<close>

subsection \<open>Arithmetic of the reducers\<close>







lemma error_rate_zero_zero: "error_rate 0 0 = NaN"
  by (simp add: error_rate_def)

lemma error_rate_no_errors: "error_rate 0 n = (if n = 0 then NaN else Num 0)"
  by (simp add: error_rate_def)







subsection \<open>The actors of simulateUser\<close>

lemma user_loop_effect:
  assumes "user_loop d w = (s, w')"
  shows "clock w' = clock w" and "tick w < tick w'" and "metrics w' = metrics w"
    and "resolved w' = resolved w" and "rejected w' = rejected w"
    and "s = (if real_of_int (clock w (tick w)) < d then AwaitOp (clock w (Suc (tick w))) else Exited)"
    and "called w' = called w + (if s = Exited then 0 else 1)"
  using assms by (auto simp: user_loop_def date_now_def split: if_splits)

lemma record_outcome_Rejected:
  "record_outcome Rejected start w =
     w\<lparr>metrics := (metrics w)\<lparr>m_errors := m_errors (metrics w) + 1\<rparr>,
       rejected := Suc (rejected w)\<rparr>"
  by (simp add: record_outcome_def)

lemma record_outcome_Resolved:
  "record_outcome Resolved start w =
     w\<lparr>tick := Suc (tick w),
       metrics := (metrics w)\<lparr>m_responseTimes :=
          m_responseTimes (metrics w) @ [clock w (tick w) - start]\<rparr>,
       resolved := Suc (resolved w)\<rparr>"
  by (simp add: record_outcome_def date_now_def)





lemma await_all_none: "await_all es [] w = Some (es, [], w)"
  by (cases es) (simp_all add: all_exited_def)

text \<open>
  Claim C6. An invocation that fails is caught inside the actor's loop and counted as
  one failure: the failure counter grows by one, no latency is recorded, the other
  actors are untouched, and the actor goes on exactly as after a success (to its
  think time, or to the loop head where it either starts the next invocation or
  returns); the enclosing \<open>Promise.all\<close> goes on with the remaining events. An event
  for another actor, or a timer, never changes an actor whatever the clock says, so
  an invocation in flight is never cut short; and at the loop head the actor returns
  exactly when the reading has reached the deadline.
\<close>

theorem failure_isolation:
  assumes i: "i < length actors"
  shows "(\<forall>start actors' w'.
            a_state (actors ! i) = AwaitOp start \<and>
            deliver (Settle i Rejected) actors w = (actors', w') \<longrightarrow>
              m_errors (metrics w') = m_errors (metrics w) + 1
            \<and> m_responseTimes (metrics w') = m_responseTimes (metrics w)
            \<and> length actors' = length actors
            \<and> (\<forall>j < length actors. j \<noteq> i \<longrightarrow> actors' ! j = actors ! j)
            \<and> a_state (actors' ! i) =
                (if 0 < a_thinkTime (actors ! i) then AwaitThink
                 else if real_of_int (clock w (tick w)) < a_endTime (actors ! i)
                 then AwaitOp (clock w (Suc (tick w))) else Exited)
            \<and> (\<not> all_exited actors \<longrightarrow>
                  await_all (Settle i Rejected # es) actors w = await_all es actors' w'))
       \<and> (\<forall>e. (\<forall>out. e \<noteq> Settle i out) \<longrightarrow> fst (deliver e actors w) ! i = actors ! i)
       \<and> (\<forall>d. fst (user_loop d w) = Exited \<longleftrightarrow> d \<le> real_of_int (clock w (tick w)))"
proof (intro conjI allI impI)
  fix start actors' w'
  assume h: "a_state (actors ! i) = AwaitOp start \<and>
            deliver (Settle i Rejected) actors w = (actors', w')"
  let ?a = "actors ! i"
  let ?w1 = "record_outcome Rejected start w"
  obtain a1 w1 where r: "user_resume Rejected ?a w = (a1, w1)"
    by (cases "user_resume Rejected ?a w")
  from h i r have eq: "actors' = actors[i := a1]" "w' = w1"
    by (auto simp: deliver_def)
  have m1: "m_errors (metrics ?w1) = m_errors (metrics w) + 1"
           "m_responseTimes (metrics ?w1) = m_responseTimes (metrics w)"
           "clock ?w1 = clock w" "tick ?w1 = tick w"
    by (simp_all add: record_outcome_Rejected)
  have key: "metrics w1 = metrics ?w1 \<and>
        a_state a1 = (if 0 < a_thinkTime ?a then AwaitThink
                 else if real_of_int (clock w (tick w)) < a_endTime ?a
                 then AwaitOp (clock w (Suc (tick w))) else Exited)"
  proof (cases "0 < a_thinkTime ?a")
    case True
    with r h show ?thesis by (auto simp: user_resume_def)
  next
    case False
    obtain s w2 where lp: "user_loop (a_endTime ?a) ?w1 = (s, w2)"
      by (cases "user_loop (a_endTime ?a) ?w1")
    from r h False lp have "a1 = ?a\<lparr>a_state := s\<rparr>" "w1 = w2"
      by (auto simp: user_resume_def)
    with user_loop_effect(3,6)[OF lp] False m1 show ?thesis by simp
  qed
  show "m_errors (metrics w') = m_errors (metrics w) + 1" using key m1 eq by simp
  show "m_responseTimes (metrics w') = m_responseTimes (metrics w)" using key m1 eq by simp
  show "length actors' = length actors" using eq by simp
  show "a_state (actors' ! i) =
                (if 0 < a_thinkTime (actors ! i) then AwaitThink
                 else if real_of_int (clock w (tick w)) < a_endTime (actors ! i)
                 then AwaitOp (clock w (Suc (tick w))) else Exited)"
    using key eq i by simp
  show "actors' ! j = actors ! j" if "j < length actors" "j \<noteq> i" for j
    using that eq by simp
  show "await_all (Settle i Rejected # es) actors w = await_all es actors' w'"
    if "\<not> all_exited actors"
    using that h by simp
next
  fix e assume "\<forall>out. e \<noteq> Settle i out"
  then show "fst (deliver e actors w) ! i = actors ! i"
    by (cases e) (auto simp: deliver_def split: prod.splits)
next
  fix d
  show "fst (user_loop d w) = Exited \<longleftrightarrow> d \<le> real_of_int (clock w (tick w))"
    by (auto simp: user_loop_def date_now_def split: if_splits)
qed

theorem failure_isolation_witness:
  "0 < length [\<lparr>a_thinkTime = 0, a_endTime = 1000, a_state = AwaitOp 100\<rparr>,
               \<lparr>a_thinkTime = 0, a_endTime = 1000, a_state = AwaitOp 200\<rparr>]
   \<and> map a_state (fst (deliver (Settle 0 Rejected)
        [\<lparr>a_thinkTime = 0, a_endTime = 1000, a_state = AwaitOp 100\<rparr>,
         \<lparr>a_thinkTime = 0, a_endTime = 1000, a_state = AwaitOp 200\<rparr>]
        (initial_world (\<lambda>n. 300 * int n)))) = [AwaitOp 300, AwaitOp 200]
   \<and> metrics (snd (deliver (Settle 0 Rejected)
        [\<lparr>a_thinkTime = 0, a_endTime = 1000, a_state = AwaitOp 100\<rparr>,
         \<lparr>a_thinkTime = 0, a_endTime = 1000, a_state = AwaitOp 200\<rparr>]
        (initial_world (\<lambda>n. 300 * int n)))) =
       \<lparr>m_responseTimes = [], m_throughput = [], m_errors = 1, m_startTime = 0, m_endTime = 0\<rparr>
   \<and> fst (user_loop 1000 (initial_world (\<lambda>n. 300 * int n))) \<noteq> Exited"
  using failure_isolation
    [of 0 "[\<lparr>a_thinkTime = 0, a_endTime = 1000, a_state = AwaitOp 100\<rparr>,
            \<lparr>a_thinkTime = 0, a_endTime = 1000, a_state = AwaitOp 200\<rparr>]"
        "initial_world (\<lambda>n. 300 * int n)" "[]"]
  by (simp add: deliver_def user_resume_def user_loop_def record_outcome_def date_now_def
        initial_world_def)

subsection \<open>One recorded outcome per invocation (shared metrics)\<close>

lemma pending_update:
  "i < length actors \<Longrightarrow> pending (actors[i := a]) + awaiting (actors ! i) = pending actors + awaiting a"
  unfolding pending_def
proof (induction actors arbitrary: i)
  case Nil
  then show ?case by simp
next
  case (Cons x xs)
  then show ?case by (cases i) auto
qed

lemma pending_append: "pending (actors @ [a]) = pending actors + awaiting a"
  by (simp add: pending_def)

lemma pending_exited: "all_exited actors \<Longrightarrow> pending actors = 0"
  unfolding pending_def all_exited_def
  by (induction actors) (auto simp: awaiting_def)

lemma awaiting_le_pending: "i < length actors \<Longrightarrow> awaiting (actors ! i) \<le> pending actors"
  unfolding pending_def
proof (induction actors arbitrary: i)
  case Nil
  then show ?case by simp
next
  case (Cons x xs)
  then show ?case by (cases i) (auto intro: trans_le_add2)
qed

lemma user_loop_tally:
  assumes "user_loop d w = (s, w')"
  shows "metrics w' = metrics w \<and> resolved w' = resolved w \<and> rejected w' = rejected w
       \<and> called w' = called w + awaiting (a\<lparr>a_state := s\<rparr>)"
  using assms by (auto simp: user_loop_def date_now_def awaiting_def split: if_splits)

lemma user_resume_tally:
  assumes r: "user_resume out a w = (a', w')"
    and t: "resolved w = r0 + length (m_responseTimes (metrics w))"
           "rejected w = j0 + m_errors (metrics w)"
           "called w = c + awaiting a + length (m_responseTimes (metrics w)) + m_errors (metrics w)"
  shows "resolved w' = r0 + length (m_responseTimes (metrics w'))
       \<and> rejected w' = j0 + m_errors (metrics w')
       \<and> called w' = c + awaiting a' + length (m_responseTimes (metrics w')) + m_errors (metrics w')"
proof (cases "a_state a")
  case (AwaitOp start)
  let ?w1 = "record_outcome out start w"
  have w1: "resolved ?w1 = r0 + length (m_responseTimes (metrics ?w1))"
           "rejected ?w1 = j0 + m_errors (metrics ?w1)"
           "called ?w1 = c + length (m_responseTimes (metrics ?w1)) + m_errors (metrics ?w1)"
    using t AwaitOp
    by (cases out; simp add: record_outcome_def date_now_def awaiting_def)+
  show ?thesis
  proof (cases "0 < a_thinkTime a")
    case True
    with r AwaitOp have "a' = a\<lparr>a_state := AwaitThink\<rparr>" "w' = ?w1"
      by (auto simp: user_resume_def)
    with w1 show ?thesis by (simp add: awaiting_def)
  next
    case False
    obtain s w2 where lp: "user_loop (a_endTime a) ?w1 = (s, w2)"
      by (cases "user_loop (a_endTime a) ?w1")
    with r AwaitOp False have eq: "a' = a\<lparr>a_state := s\<rparr>" "w' = w2"
      by (auto simp: user_resume_def)
    from user_loop_tally[OF lp, of a] w1 show ?thesis by (simp add: eq)
  qed
next
  case AwaitThink
  obtain s w2 where lp: "user_loop (a_endTime a) w = (s, w2)"
    by (cases "user_loop (a_endTime a) w")
  with r AwaitThink have eq: "a' = a\<lparr>a_state := s\<rparr>" "w' = w2"
    by (auto simp: user_resume_def)
  from user_loop_tally[OF lp, of a] t AwaitThink show ?thesis
    by (simp add: eq awaiting_def)
next
  case Exited
  with r have "a' = a" "w' = w" by (auto simp: user_resume_def)
  with t show ?thesis by simp
qed

lemma deliver_tally:
  assumes d: "deliver e actors w = (actors', w')" and t: "tally c0 r0 j0 actors w"
  shows "tally c0 r0 j0 actors' w'"
proof (cases e)
  case (Settle i out)
  show ?thesis
  proof (cases "i < length actors")
    case True
    obtain a1 w1 where r: "user_resume out (actors ! i) w = (a1, w1)"
      by (cases "user_resume out (actors ! i) w")
    with d Settle True have eq: "actors' = actors[i := a1]" "w' = w1"
      by (auto simp: deliver_def)
    from pending_update[OF True, of a1] have
      pu: "pending (actors[i := a1]) + awaiting (actors ! i) = pending actors + awaiting a1" .
    define c where "c = c0 + pending actors - awaiting (actors ! i)"
    have le: "awaiting (actors ! i) \<le> pending actors"
      by (rule awaiting_le_pending[OF True])
    have c1: "c + awaiting (actors ! i) = c0 + pending actors"
      using le by (simp add: c_def)
    have c2: "c + awaiting a1 = c0 + pending (actors[i := a1])"
      using pu le by (simp add: c_def)
    from t c1 have
      "called w = c + awaiting (actors ! i) + length (m_responseTimes (metrics w)) + m_errors (metrics w)"
      by (simp add: tally_def)
    from user_resume_tally[OF r _ _ this, of r0 j0] t c2 show ?thesis
      by (simp add: tally_def eq)
  next
    case False
    with d Settle t show ?thesis by (auto simp: deliver_def)
  qed
next
  case Tick
  with d t show ?thesis by (auto simp: deliver_def)
next
  case Wake
  with d t show ?thesis by (auto simp: deliver_def)
qed

lemma await_all_tally:
  assumes "await_all es actors w = Some (es', actors', w')" and "tally c0 r0 j0 actors w"
  shows "tally c0 r0 j0 actors' w' \<and> all_exited actors'"
  using assms
proof (induction es arbitrary: actors w)
  case Nil
  then show ?case by (auto split: if_splits)
next
  case (Cons e es)
  show ?case
  proof (cases "all_exited actors")
    case True
    with Cons.prems show ?thesis by auto
  next
    case False
    obtain a1 w1 where d: "deliver e actors w = (a1, w1)" by (cases "deliver e actors w")
    with Cons.prems(1) False have "await_all es a1 w1 = Some (es', actors', w')" by simp
    from Cons.IH[OF this deliver_tally[OF d Cons.prems(2)]] show ?thesis .
  qed
qed

lemma await_timeout_tally:
  assumes "await_timeout es actors w = Some (es', actors', w')" and "tally c0 r0 j0 actors w"
  shows "tally c0 r0 j0 actors' w'"
  using assms
proof (induction es arbitrary: actors w)
  case Nil
  then show ?case by simp
next
  case (Cons e es)
  show ?case
  proof (cases "e = Wake")
    case True
    with Cons.prems show ?thesis by auto
  next
    case False
    obtain a1 w1 where d: "deliver e actors w = (a1, w1)" by (cases "deliver e actors w")
    with Cons.prems(1) False have "await_timeout es a1 w1 = Some (es', actors', w')" by simp
    from Cons.IH[OF this deliver_tally[OF d Cons.prems(2)]] show ?thesis .
  qed
qed

lemma simulateUser_tally:
  assumes s: "simulateUser tt d w = (a, w')" and t: "tally c0 r0 j0 actors w"
  shows "tally c0 r0 j0 (actors @ [a]) w'"
proof -
  obtain st w1 where lp: "user_loop d w = (st, w1)" by (cases "user_loop d w")
  with s have eq: "a = \<lparr>a_thinkTime = tt, a_endTime = d, a_state = st\<rparr>" "w' = w1"
    by (auto simp: simulateUser_def)
  from user_loop_tally[OF lp, of a] eq have
    "metrics w' = metrics w" "resolved w' = resolved w" "rejected w' = rejected w"
    "called w' = called w + awaiting a" by auto
  with t show ?thesis by (simp add: tally_def pending_append)
qed

lemma spawn_users_tally:
  assumes "spawn_users n tt d actors w = (actors', w')" and "tally c0 r0 j0 actors w"
  shows "tally c0 r0 j0 actors' w'"
  using assms
proof (induction n arbitrary: actors w)
  case 0
  then show ?case by simp
next
  case (Suc n)
  obtain a w1 where s: "simulateUser tt d w = (a, w1)" by (cases "simulateUser tt d w")
  with Suc.prems(1) have "spawn_users n tt d (actors @ [a]) w1 = (actors', w')" by simp
  from Suc.IH[OF this simulateUser_tally[OF s Suc.prems(2)]] show ?case .
qed

lemma tally_done:
  assumes "tally c0 r0 j0 actors w" and "all_exited actors"
  shows "length (m_responseTimes (metrics w)) = resolved w - r0"
    and "m_errors (metrics w) = rejected w - j0"
    and "length (m_responseTimes (metrics w)) + m_errors (metrics w) = called w - c0"
  using assms pending_exited[OF assms(2)] by (simp_all add: tally_def)

lemma tally_tick: "tally c0 r0 j0 actors w \<Longrightarrow> tally c0 r0 j0 actors (snd (date_now w))"
  by (simp add: tally_def date_now_def)

lemma tally_fresh:
  assumes "m_responseTimes (metrics w) = []" and "m_errors (metrics w) = 0"
  shows "tally (called w) (resolved w) (rejected w) [] w"
  using assms by (simp add: tally_def pending_def)

subsection \<open>Load profile\<close>

lemma load_loop_exit:
  assumes "deadline \<le> real_of_int (clock w (tick w))"
  shows "load_loop users thinkTime deadline rampUpInterval activeUsers es userPromises w =
           Some (es, userPromises, w\<lparr>tick := Suc (tick w)\<rparr>)"
  using assms by (subst load_loop.simps) (simp add: date_now_def)

lemma load_loop_spin:
  assumes "\<not> int activeUsers < users"
    and "deadline \<le> real_of_int (clock w (tick w + n))"
  shows "\<exists>m \<le> n. load_loop users thinkTime deadline rampUpInterval activeUsers es userPromises w =
           Some (es, userPromises, w\<lparr>tick := Suc (tick w + m)\<rparr>)"
  using assms(2)
proof (induction n arbitrary: w)
  case 0
  then show ?case using load_loop_exit[of deadline w] by simp
next
  case (Suc n)
  show ?case
  proof (cases "deadline \<le> real_of_int (clock w (tick w))")
    case True
    from load_loop_exit[OF True] show ?thesis by (intro exI[of _ 0]) simp
  next
    case False
    let ?w1 = "w\<lparr>tick := Suc (tick w)\<rparr>"
    have step: "load_loop users thinkTime deadline rampUpInterval activeUsers es userPromises w =
                load_loop users thinkTime deadline rampUpInterval activeUsers es userPromises ?w1"
      using False assms(1) by (subst load_loop.simps) (simp add: date_now_def)
    from Suc.prems have "deadline \<le> real_of_int (clock ?w1 (tick ?w1 + n))" by simp
    from Suc.IH[OF this] obtain m where m: "m \<le> n"
      "load_loop users thinkTime deadline rampUpInterval activeUsers es userPromises ?w1 =
         Some (es, userPromises, ?w1\<lparr>tick := Suc (tick ?w1 + m)\<rparr>)" by blast
    show ?thesis
      using m step by (intro exI[of _ "Suc m"]) simp
  qed
qed

lemma load_loop_inv:
  assumes run: "load_loop users thinkTime deadline rampUpInterval activeUsers es userPromises w = Some y"
    and step1: "\<And>ups w a w1. I ups w \<Longrightarrow> simulateUser thinkTime deadline w = (a, w1) \<Longrightarrow> I (ups @ [a]) w1"
    and step2: "\<And>ups w es es' ups' w'. I ups w \<Longrightarrow> await_timeout es ups w = Some (es', ups', w') \<Longrightarrow> I ups' w'"
    and step3: "\<And>ups w. I ups w \<Longrightarrow> I ups (snd (date_now w))"
    and init: "I userPromises w"
  shows "I (fst (snd y)) (snd (snd y))"
proof -
  have "users = users \<longrightarrow> thinkTime = thinkTime \<longrightarrow> deadline = deadline \<longrightarrow>
          I userPromises w \<longrightarrow> I (fst (snd y)) (snd (snd y))"
  proof (rule load_loop.raw_induct
      [where P = "\<lambda>u tt d ri au es ups w y. u = users \<longrightarrow> tt = thinkTime \<longrightarrow> d = deadline \<longrightarrow>
                     I ups w \<longrightarrow> I (fst (snd y)) (snd (snd y))", OF _ run], intro impI, goal_cases)
    case (1 f u tt d ri au es ups w y)
    note IH = 1(1) and body = 1(2)[unfolded 1(3) 1(4) 1(5)] and inv = 1(6)
    show ?case
    proof (cases "real_of_int (fst (date_now w)) < deadline")
      case False
      with body have "y = (es, ups, snd (date_now w))" by simp
      with step3[OF inv] show ?thesis by simp
    next
      case lt: True
      show ?thesis
      proof (cases "int au < users")
        case False
        with lt body have "f users thinkTime deadline ri au es ups (snd (date_now w)) = Some y"
          by simp
        from IH[OF this] step3[OF inv] show ?thesis by simp
      next
        case True
        obtain a w2 where s: "simulateUser thinkTime deadline (snd (date_now w)) = (a, w2)"
          by (cases "simulateUser thinkTime deadline (snd (date_now w))")
        have i2: "I (ups @ [a]) w2" by (rule step1[OF step3[OF inv] s])
        show ?thesis
        proof (cases "js_gt ri (Num 0)")
          case False
          with lt True s body have
            "f users thinkTime deadline ri (Suc au) es (ups @ [a]) w2 = Some y" by simp
          from IH[OF this] i2 show ?thesis by simp
        next
          case gt: True
          with lt True s body obtain es1 a1 w3 where
            aw: "await_timeout es (ups @ [a]) w2 = Some (es1, a1, w3)"
            and rec: "f users thinkTime deadline ri (Suc au) es1 a1 w3 = Some y"
            by (auto split: option.splits)
          from IH[OF rec] step2[OF i2 aw] show ?thesis by simp
        qed
      qed
    qed
  qed
  with init show ?thesis by simp
qed

lemma load_loop_tally:
  assumes "load_loop users thinkTime deadline rampUpInterval activeUsers es userPromises w =
             Some (es', userPromises', w')"
    and "tally c0 r0 j0 userPromises w"
  shows "tally c0 r0 j0 userPromises' w'"
  using load_loop_inv[OF assms(1), where I = "tally c0 r0 j0"]
    simulateUser_tally await_timeout_tally tally_tick assms(2)
  by auto

lemma loadTest_parts:
  assumes run: "loadTest options es w0 = Some (r, es', w')"
  shows "\<exists>thinkTime deadline rampUpInterval es1 ups w4 a2 w5.
      load_loop (lo_users options) thinkTime deadline rampUpInterval 0 es []
        (w0\<lparr>metrics := \<lparr>m_responseTimes = [], m_throughput = [], m_errors = 0,
                         m_startTime = clock w0 (tick w0), m_endTime = 0\<rparr>,
             tick := Suc (Suc (tick w0))\<rparr>) = Some (es1, ups, w4)
    \<and> await_all es1 ups w4 = Some (es', a2, w5)
    \<and> generateLoadTestResult ''Load Test''
         (w5\<lparr>tick := Suc (tick w5), metrics := (metrics w5)\<lparr>m_endTime := clock w5 (tick w5)\<rparr>\<rparr>)
        = (r, w')"
proof -
  let ?tt = "case lo_thinkTime options of None \<Rightarrow> 0 | Some v \<Rightarrow> v"
  let ?rt = "case lo_rampUpTime options of None \<Rightarrow> 0 | Some v \<Rightarrow> v"
  let ?d = "real_of_int (clock w0 (Suc (tick w0))) + lo_duration options * 1000"
  let ?ri = "if ?rt > 0 then js_div (Num (?rt * 1000)) (Num (real_of_int (lo_users options)))
             else Num 0"
  let ?w3 = "w0\<lparr>metrics := \<lparr>m_responseTimes = [], m_throughput = [], m_errors = 0,
                         m_startTime = clock w0 (tick w0), m_endTime = 0\<rparr>,
             tick := Suc (Suc (tick w0))\<rparr>"
  have unf: "loadTest options es w0 =
      (case load_loop (lo_users options) ?tt ?d ?ri 0 es [] ?w3 of
         None \<Rightarrow> None
       | Some y \<Rightarrow>
           (case await_all (fst y) (fst (snd y)) (snd (snd y)) of
              None \<Rightarrow> None
            | Some z \<Rightarrow>
                Some (fst (generateLoadTestResult ''Load Test''
                             ((snd (snd z))\<lparr>tick := Suc (tick (snd (snd z))),
                                metrics := (metrics (snd (snd z)))
                                  \<lparr>m_endTime := clock (snd (snd z)) (tick (snd (snd z)))\<rparr>\<rparr>)),
                      fst z,
                      snd (generateLoadTestResult ''Load Test''
                             ((snd (snd z))\<lparr>tick := Suc (tick (snd (snd z))),
                                metrics := (metrics (snd (snd z)))
                                  \<lparr>m_endTime := clock (snd (snd z)) (tick (snd (snd z)))\<rparr>\<rparr>)))))"
    by (simp add: loadTest_def Let_def case_prod_beta date_now_def resetMetrics_def
             cong: option.case_cong)
  from run obtain y where y: "load_loop (lo_users options) ?tt ?d ?ri 0 es [] ?w3 = Some y"
    unfolding unf by (auto split: option.splits)
  from run y obtain z where z: "await_all (fst y) (fst (snd y)) (snd (snd y)) = Some z"
    unfolding unf by (auto split: option.splits)
  from run y z have g: "generateLoadTestResult ''Load Test''
         ((snd (snd z))\<lparr>tick := Suc (tick (snd (snd z))),
            metrics := (metrics (snd (snd z)))
              \<lparr>m_endTime := clock (snd (snd z)) (tick (snd (snd z)))\<rparr>\<rparr>) = (r, w')" and e: "fst z = es'"
    unfolding unf by (auto simp: prod_eq_iff)
  obtain es1 ups w4 where yy: "y = (es1, ups, w4)" by (cases y) auto
  obtain e2 a2 w5 where zz: "z = (e2, a2, w5)" by (cases z) auto
  from y z g e show ?thesis unfolding yy zz by (intro exI[of _ ?tt] exI[of _ ?d] exI[of _ ?ri]) auto
qed

lemma generateLoadTestResult_empty:
  assumes "m_responseTimes (metrics w) = []" and "m_errors (metrics w) = 0"
    and "generateLoadTestResult t w = (r, w')"
  shows "lr_totalRequests r = 0 \<and> lr_successfulRequests r = 0 \<and> lr_failedRequests r = 0
       \<and> lr_avgResponseTime r = 0 \<and> lr_minResponseTime r = 0 \<and> lr_maxResponseTime r = 0
       \<and> lr_errorRate r = 0 \<and> (lr_throughput r = Num 0 \<or> lr_throughput r = NaN)"
  using assms
  by (auto simp: generateLoadTestResult_def Let_def average_def min_or_zero_def max_or_zero_def
           split: prod.splits)

lemma loadTest_idle:
  assumes "load_loop (lo_users options)
             (case lo_thinkTime options of None \<Rightarrow> 0 | Some v \<Rightarrow> v)
             (real_of_int (clock w0 (Suc (tick w0))) + lo_duration options * 1000)
             ri 0 es []
             (w0\<lparr>metrics := \<lparr>m_responseTimes = [], m_throughput = [], m_errors = 0,
                         m_startTime = clock w0 (tick w0), m_endTime = 0\<rparr>,
                  tick := Suc (Suc (tick w0))\<rparr>) = Some (es, [], w4)"
    and "metrics w4 = \<lparr>m_responseTimes = [], m_throughput = [], m_errors = 0,
                         m_startTime = clock w0 (tick w0), m_endTime = 0\<rparr>"
    and "ri = (if (case lo_rampUpTime options of None \<Rightarrow> 0 | Some v \<Rightarrow> v) > 0
                then js_div (Num ((case lo_rampUpTime options of None \<Rightarrow> 0 | Some v \<Rightarrow> v) * 1000))
                       (Num (real_of_int (lo_users options))) else Num 0)"
  shows "\<exists>r w'. loadTest options es w0 = Some (r, es, w') \<and> zero_filled r"
proof -
  let ?w6 = "(snd (date_now w4))\<lparr>metrics := (metrics (snd (date_now w4)))\<lparr>m_endTime := fst (date_now w4)\<rparr>\<rparr>"
  obtain r w7 where g: "generateLoadTestResult ''Load Test'' ?w6 = (r, w7)"
    by (cases "generateLoadTestResult ''Load Test'' ?w6")
  have z: "zero_filled r"
    unfolding zero_filled_def
    by (rule generateLoadTestResult_empty[OF _ _ g]) (simp_all add: date_now_def assms(2))
  have "loadTest options es w0 = Some (r, es, w7)"
    unfolding loadTest_def Let_def
    using assms(1) g
    by (simp add: date_now_def resetMetrics_def await_all_none assms(3))
  with z show ?thesis by blast
qed

lemma loadTest_returns_zero:
  assumes "(lo_duration options \<le> 0 \<and> mono (clock w0))
         \<or> (lo_users options \<le> 0 \<and>
              (\<exists>n. real_of_int (clock w0 (Suc (tick w0))) + lo_duration options * 1000
                      \<le> real_of_int (clock w0 (Suc (Suc (tick w0)) + n))))"
  shows "\<exists>r w'. loadTest options es w0 = Some (r, es, w') \<and> zero_filled r"
proof -
  let ?d = "real_of_int (clock w0 (Suc (tick w0))) + lo_duration options * 1000"
  let ?w3 = "w0\<lparr>metrics := \<lparr>m_responseTimes = [], m_throughput = [], m_errors = 0,
                         m_startTime = clock w0 (tick w0), m_endTime = 0\<rparr>,
                  tick := Suc (Suc (tick w0))\<rparr>"
  let ?ri = "if (case lo_rampUpTime options of None \<Rightarrow> 0 | Some v \<Rightarrow> v) > 0
                then js_div (Num ((case lo_rampUpTime options of None \<Rightarrow> 0 | Some v \<Rightarrow> v) * 1000))
                       (Num (real_of_int (lo_users options))) else Num 0"
  let ?tt = "case lo_thinkTime options of None \<Rightarrow> 0 | Some v \<Rightarrow> v"
  have "\<exists>m. load_loop (lo_users options) ?tt ?d ?ri 0 es [] ?w3 =
               Some (es, [], ?w3\<lparr>tick := Suc (tick ?w3 + m)\<rparr>)"
    using assms
  proof
    assume a: "lo_duration options \<le> 0 \<and> mono (clock w0)"
    then have "clock w0 (Suc (tick w0)) \<le> clock w0 (Suc (Suc (tick w0)))"
      by (simp add: mono_def)
    then have "real_of_int (clock w0 (Suc (tick w0))) \<le> real_of_int (clock w0 (Suc (Suc (tick w0))))"
      by simp
    moreover have "lo_duration options * 1000 \<le> 0" using a by simp
    ultimately have "?d \<le> real_of_int (clock ?w3 (tick ?w3))" by simp
    from load_loop_exit[OF this] show ?thesis by (intro exI[of _ 0]) simp
  next
    assume a: "lo_users options \<le> 0 \<and>
              (\<exists>n. ?d \<le> real_of_int (clock w0 (Suc (Suc (tick w0)) + n)))"
    then obtain n where "?d \<le> real_of_int (clock ?w3 (tick ?w3 + n))" by auto
    moreover have "\<not> int 0 < lo_users options" using a by simp
    ultimately show ?thesis using load_loop_spin[of 0 "lo_users options" ?d ?w3 n] by blast
  qed
  then obtain m where
    l: "load_loop (lo_users options) ?tt ?d ?ri 0 es [] ?w3 =
               Some (es, [], ?w3\<lparr>tick := Suc (tick ?w3 + m)\<rparr>)" ..
  show ?thesis
    by (rule loadTest_idle[OF l]) simp_all
qed

lemma loadTest_tally:
  assumes run: "loadTest options es w0 = Some (r, es', w')"
  shows "lr_successfulRequests r = resolved w' - resolved w0
       \<and> lr_failedRequests r = rejected w' - rejected w0
       \<and> lr_successfulRequests r + lr_failedRequests r = called w' - called w0"
proof -
  let ?w3 = "w0\<lparr>metrics := \<lparr>m_responseTimes = [], m_throughput = [], m_errors = 0,
                         m_startTime = clock w0 (tick w0), m_endTime = 0\<rparr>,
             tick := Suc (Suc (tick w0))\<rparr>"
  have fresh: "tally (called w0) (resolved w0) (rejected w0) [] ?w3"
    using tally_fresh[of ?w3] by simp
  from loadTest_parts[OF run] obtain tt d ri es1 ups w4 a2 w5 where
    l: "load_loop (lo_users options) tt d ri 0 es [] ?w3 = Some (es1, ups, w4)"
    and aw: "await_all es1 ups w4 = Some (es', a2, w5)"
    and g: "generateLoadTestResult ''Load Test''
         (w5\<lparr>tick := Suc (tick w5), metrics := (metrics w5)\<lparr>m_endTime := clock w5 (tick w5)\<rparr>\<rparr>)
        = (r, w')"
    by blast
  from await_all_tally[OF aw load_loop_tally[OF l fresh]] have
    t5: "tally (called w0) (resolved w0) (rejected w0) a2 w5" and ex: "all_exited a2" by simp_all
  note d = tally_done[OF t5 ex]
  from g have r: "lr_successfulRequests r = length (m_responseTimes (metrics w5))"
    "lr_failedRequests r = m_errors (metrics w5)"
    "resolved w' = resolved w5" "rejected w' = rejected w5" "called w' = called w5"
    by (auto simp: generateLoadTestResult_def Let_def date_now_def)
  show ?thesis using d r by simp
qed




subsection \<open>Stress profile\<close>

lemma stress_step_users:
  assumes "stress_step d u es w = Some (r, es', w')"
  shows "s_users r = u"
  using assms by (auto simp: stress_step_def Let_def split: prod.splits option.splits)

lemma stress_step_idle:
  assumes "stress_step d u es w = Some (r, es', w')" and "u \<le> 0"
  shows "s_errorRate r = NaN"
  using assms
  by (auto simp: stress_step_def Let_def date_now_def await_all_none error_rate_zero_zero
           split: prod.splits option.splits)

lemma stress_step_tally:
  assumes run: "stress_step stepDuration users es w = Some (r, es', w')"
  shows "length (m_responseTimes (metrics w')) = resolved w' - resolved w
       \<and> m_errors (metrics w') = rejected w' - rejected w
       \<and> length (m_responseTimes (metrics w')) + m_errors (metrics w') = called w' - called w"
proof -
  let ?w2 = "w\<lparr>metrics := (metrics w)\<lparr>m_responseTimes := [], m_errors := 0\<rparr>, tick := Suc (tick w)\<rparr>"
  let ?d = "real_of_int (clock w (tick w)) + stepDuration * 1000"
  have fresh: "tally (called w) (resolved w) (rejected w) [] ?w2"
    using tally_fresh[of ?w2] by simp
  obtain ups w3 where sp: "spawn_users (nat users) 0 ?d [] ?w2 = (ups, w3)"
    by (cases "spawn_users (nat users) 0 ?d [] ?w2")
  from run sp obtain a1 where aw: "await_all es ups w3 = Some (es', a1, w')"
    by (auto simp: stress_step_def Let_def date_now_def split: option.splits)
  from await_all_tally[OF aw spawn_users_tally[OF sp fresh]] have
    "tally (called w) (resolved w) (rejected w) a1 w'" "all_exited a1" by simp_all
  from tally_done[OF this] show ?thesis by simp
qed

lemma arith_Suc: "arith u s (Suc n) = u # arith (u + s) s n"
proof -
  have "[0..<Suc n] = 0 # map Suc [0..<n]"
    by (simp add: upt_conv_Cons map_Suc_upt del: upt_Suc)
  then show ?thesis
    by (simp add: arith_def comp_def algebra_simps del: upt_Suc)
qed

lemma stress_loop_induct [consumes 1, case_names MaxExceeded TimeUp Threshold Continue]:
  assumes run: "stress_loop options deadline users es results checks w = Some y"
    and mx: "\<And>users es results checks w.
        \<not> users \<le> so_maxUsers options \<Longrightarrow>
        P users es results checks w
          (\<lparr>st_why = MaxExceeded, st_checks = checks\<rparr>, results, es, w)"
    and tu: "\<And>users es results checks w.
        users \<le> so_maxUsers options \<Longrightarrow>
        \<not> real_of_int (fst (date_now w)) < deadline \<Longrightarrow>
        P users es results checks w
          (\<lparr>st_why = TimeUp, st_checks = checks @ [fst (date_now w)]\<rparr>, results, es,
           snd (date_now w))"
    and th: "\<And>users es results checks w r es1 w2.
        users \<le> so_maxUsers options \<Longrightarrow>
        real_of_int (fst (date_now w)) < deadline \<Longrightarrow>
        stress_step (so_stepDuration options) users es (snd (date_now w)) = Some (r, es1, w2) \<Longrightarrow>
        js_ge (s_errorRate r) (Num (so_errorThreshold options)) \<Longrightarrow>
        P users es results checks w
          (\<lparr>st_why = ThresholdReached, st_checks = checks @ [fst (date_now w)]\<rparr>,
           results @ [r], es1, w2)"
    and co: "\<And>users es results checks w r es1 w2 y.
        users \<le> so_maxUsers options \<Longrightarrow>
        real_of_int (fst (date_now w)) < deadline \<Longrightarrow>
        stress_step (so_stepDuration options) users es (snd (date_now w)) = Some (r, es1, w2) \<Longrightarrow>
        \<not> js_ge (s_errorRate r) (Num (so_errorThreshold options)) \<Longrightarrow>
        P (users + so_stepSize options) es1 (results @ [r]) (checks @ [fst (date_now w)]) w2 y \<Longrightarrow>
        P users es results checks w y"
  shows "P users es results checks w y"
proof -
  have "options = options \<longrightarrow> deadline = deadline \<longrightarrow> P users es results checks w y"
  proof (rule stress_loop.raw_induct
      [where P = "\<lambda>opts dl u e r c w y. opts = options \<longrightarrow> dl = deadline \<longrightarrow> P u e r c w y",
        OF _ run], intro impI, goal_cases)
    case (1 f opts dl u e r c w y)
    note IH = 1(1) and body = 1(2)[unfolded 1(3) 1(4)]
    show ?case
    proof (cases "u \<le> so_maxUsers options")
      case False
      with body mx show ?thesis by auto
    next
      case le: True
      show ?thesis
      proof (cases "real_of_int (fst (date_now w)) < deadline")
        case False
        with le body tu show ?thesis by auto
      next
        case lt: True
        from le lt body obtain s es1 w2 where
          st: "stress_step (so_stepDuration options) u e (snd (date_now w)) = Some (s, es1, w2)"
          by (auto split: option.splits)
        show ?thesis
        proof (cases "js_ge (s_errorRate s) (Num (so_errorThreshold options))")
          case True
          with le lt st body th show ?thesis by auto
        next
          case False
          with le lt st body have
            "f options deadline (u + so_stepSize options) es1 (r @ [s]) (c @ [fst (date_now w)]) w2 = Some y"
            by simp
          from IH[OF this] have
            "P (u + so_stepSize options) es1 (r @ [s]) (c @ [fst (date_now w)]) w2 y" by simp
          from co[OF le lt st False this] show ?thesis .
        qed
      qed
    qed
  qed
  then show ?thesis by simp
qed

lemma stress_loop_samples:
  assumes "stress_loop options deadline users es results checks w = Some y"
  shows "\<exists>new. fst (snd y) = results @ new
      \<and> map s_users new = arith users (so_stepSize options) (length new)
      \<and> (\<forall>r \<in> set new. s_users r \<le> so_maxUsers options)
      \<and> (\<forall>r \<in> set new. s_users r \<le> 0 \<longrightarrow> s_errorRate r = NaN)
      \<and> (\<forall>r \<in> set (butlast new). \<not> js_ge (s_errorRate r) (Num (so_errorThreshold options)))
      \<and> (st_why (fst y) = ThresholdReached \<longrightarrow>
            new \<noteq> [] \<and> js_ge (s_errorRate (last new)) (Num (so_errorThreshold options)))
      \<and> (st_why (fst y) \<noteq> ThresholdReached \<longrightarrow>
            (\<forall>r \<in> set new. \<not> js_ge (s_errorRate r) (Num (so_errorThreshold options))))
      \<and> (st_why (fst y) = MaxExceeded \<longrightarrow>
            so_maxUsers options < users + int (length new) * so_stepSize options)
      \<and> (st_why (fst y) = TimeUp \<longrightarrow>
            users + int (length new) * so_stepSize options \<le> so_maxUsers options)"
  using assms
proof (induction rule: stress_loop_induct)
  case (MaxExceeded users es results checks w)
  then show ?case by (simp add: arith_def)
next
  case (TimeUp users es results checks w)
  then show ?case by (simp add: arith_def)
next
  case (Threshold users es results checks w r es1 w2)
  have u: "s_users r = users" by (rule stress_step_users[OF Threshold(3)])
  have n: "users \<le> 0 \<longrightarrow> s_errorRate r = NaN" using stress_step_idle[OF Threshold(3)] by simp
  show ?case
    apply (rule exI[of _ "[r]"])
    using Threshold(1,4) u n by (simp add: arith_def)
next
  case (Continue users es results checks w r es1 w2 y)
  have u: "s_users r = users" by (rule stress_step_users[OF Continue(3)])
  have n: "users \<le> 0 \<longrightarrow> s_errorRate r = NaN" using stress_step_idle[OF Continue(3)] by simp
  from Continue(5) obtain new where new:
    "fst (snd y) = (results @ [r]) @ new"
    "map s_users new = arith (users + so_stepSize options) (so_stepSize options) (length new)"
    "\<forall>r \<in> set new. s_users r \<le> so_maxUsers options"
    "\<forall>r \<in> set new. s_users r \<le> 0 \<longrightarrow> s_errorRate r = NaN"
    "\<forall>r \<in> set (butlast new). \<not> js_ge (s_errorRate r) (Num (so_errorThreshold options))"
    "st_why (fst y) = ThresholdReached \<longrightarrow>
        new \<noteq> [] \<and> js_ge (s_errorRate (last new)) (Num (so_errorThreshold options))"
    "st_why (fst y) \<noteq> ThresholdReached \<longrightarrow>
        (\<forall>r \<in> set new. \<not> js_ge (s_errorRate r) (Num (so_errorThreshold options)))"
    "st_why (fst y) = MaxExceeded \<longrightarrow>
        so_maxUsers options < users + so_stepSize options + int (length new) * so_stepSize options"
    "st_why (fst y) = TimeUp \<longrightarrow>
        users + so_stepSize options + int (length new) * so_stepSize options \<le> so_maxUsers options"
    by blast
  have bl: "\<forall>x \<in> set (butlast (r # new)). \<not> js_ge (s_errorRate x) (Num (so_errorThreshold options))"
    using new(5) Continue(4) by (cases new) auto
  show ?case
    apply (rule exI[of _ "r # new"])
    apply (intro conjI)
    subgoal using new(1) by simp
    subgoal using new(2) u by (simp add: arith_Suc)
    subgoal using new(3) u Continue(1) by simp
    subgoal using new(4) n u by simp
    subgoal by (rule bl)
    subgoal using new(6) by simp
    subgoal using new(7) Continue(4) by simp
    subgoal using new(8) by (simp add: algebra_simps)
    subgoal using new(9) by (simp add: algebra_simps)
    done
qed


lemma generateStressTestResult_fields:
  assumes "generateStressTestResult rs w = (res, w')"
  shows "sr_results res = rs"
    and "sr_breakingPoint res =
      or_else (map_option s_users (find (\<lambda>r. js_ge (s_errorRate r) (Num 5)) rs))
        (or_else (if rs = [] then None else Some (s_users (last rs))) 0)"
  using assms by (auto simp: generateStressTestResult_def Let_def split: prod.splits)

lemma stressTest_loop:
  assumes "stressTest options es w0 = Some (res, tr, es', w')"
  shows "\<exists>w3 w4 w5. stress_loop options
            (real_of_int (clock w0 (Suc (tick w0))) + so_maxDuration options * 1000)
            (so_stepSize options) es [] [] w3 = Some (tr, sr_results res, es', w4)
          \<and> generateStressTestResult (sr_results res) w5 = (res, w')"
proof -
  have t1: "fst (date_now (snd (date_now (resetMetrics w0))
              \<lparr>metrics := (metrics (snd (date_now (resetMetrics w0))))
                 \<lparr>m_startTime := fst (date_now (resetMetrics w0))\<rparr>\<rparr>)) = clock w0 (Suc (tick w0))"
    by (simp add: date_now_def resetMetrics_def)
  from assms obtain w3 w4 w5 rs where
    loop: "stress_loop options
            (real_of_int (clock w0 (Suc (tick w0))) + so_maxDuration options * 1000)
            (so_stepSize options) es [] [] w3 = Some (tr, rs, es', w4)"
    and gen: "generateStressTestResult rs w5 = (res, w')"
    unfolding stressTest_def Let_def
    by (auto simp: t1[symmetric] split: prod.splits option.splits)
  from generateStressTestResult_fields(1)[OF gen] loop gen show ?thesis by blast
qed

text \<open>
  Claim C1. In a stress run that executed at least one step, the reported breaking
  point is the concurrency of the first step of the results whose error rate is at
  least 5 (the constant of \<open>generateStressTestResult\<close>; the caller's
  \<open>errorThreshold\<close> does not enter: the breaking point is a function of the results
  alone), and the concurrency of the last step when no step reached 5.
\<close>

theorem breaking_point:
  assumes "stressTest options es w0 = Some (res, tr, es', w')"
    and "sr_results res \<noteq> []"
  shows "sr_breakingPoint res =
           (case find (\<lambda>r. js_ge (s_errorRate r) (Num 5)) (sr_results res) of
              Some r \<Rightarrow> s_users r
            | None \<Rightarrow> s_users (last (sr_results res)))
         \<and> (\<forall>w. sr_breakingPoint (fst (generateStressTestResult (sr_results res) w))
                  = sr_breakingPoint res)"
proof -
  from stressTest_loop[OF assms(1)] obtain w3 w4 w5 where
    loop: "stress_loop options
            (real_of_int (clock w0 (Suc (tick w0))) + so_maxDuration options * 1000)
            (so_stepSize options) es [] [] w3 = Some (tr, sr_results res, es', w4)"
    and gen: "generateStressTestResult (sr_results res) w5 = (res, w')"
    by blast
  from stress_loop_samples[OF loop]
  have idle: "\<forall>r \<in> set (sr_results res). s_users r \<le> 0 \<longrightarrow> s_errorRate r = NaN"
    by auto
  have bp: "sr_breakingPoint res =
      or_else (map_option s_users (find (\<lambda>r. js_ge (s_errorRate r) (Num 5)) (sr_results res)))
        (or_else (if sr_results res = [] then None else Some (s_users (last (sr_results res)))) 0)"
    by (rule generateStressTestResult_fields(2)[OF gen])
  have first: "sr_breakingPoint res =
           (case find (\<lambda>r. js_ge (s_errorRate r) (Num 5)) (sr_results res) of
              Some r \<Rightarrow> s_users r
            | None \<Rightarrow> s_users (last (sr_results res)))"
  proof (cases "find (\<lambda>r. js_ge (s_errorRate r) (Num 5)) (sr_results res)")
    case None
    then show ?thesis using bp assms(2) by (simp add: or_else_def)
  next
    case (Some r)
    then have "js_ge (s_errorRate r) (Num 5)" and "r \<in> set (sr_results res)"
      by (auto simp: find_Some_iff)
    with idle have "s_users r \<noteq> 0" by auto
    then show ?thesis using bp Some by (simp add: or_else_def)
  qed
  have "\<forall>w. sr_breakingPoint (fst (generateStressTestResult (sr_results res) w))
                  = sr_breakingPoint res"
    unfolding bp by (simp add: generateStressTestResult_def Let_def date_now_def)
  with first show ?thesis by blast
qed

text \<open>A run with the caller's threshold at 50: the first step (one actor, two
  invocations complete and one fails) has an error rate of a third of 100, above 5
  and below 50; the second step (two actors, every invocation fails) ends the run.\<close>

lemma demo_stress_run:
  "map_option
     (\<lambda>(res, tr, es', w').
        (map s_users (sr_results res), map s_errorRate (sr_results res),
         sr_breakingPoint res, st_why tr))
     (stressTest \<lparr>so_maxUsers = 2, so_stepSize = 1, so_stepDuration = 0.9,
                   so_maxDuration = 10, so_errorThreshold = 50\<rparr>
        [Settle 0 Resolved, Settle 0 Resolved, Settle 0 Rejected, Settle 0 Rejected,
         Settle 1 Rejected, Settle 0 Rejected, Settle 1 Rejected]
        (initial_world (\<lambda>n. 100 * int n)))
   = Some ([1, 2], [Num (100 / 3), Num 100], 1, ThresholdReached)"
  by code_simp

theorem breaking_point_witness:
  "map_option
     (\<lambda>(res, tr, es', w').
        (map s_users (sr_results res), map s_errorRate (sr_results res),
         sr_results res \<noteq> [],
         sr_breakingPoint res =
           (case find (\<lambda>r. js_ge (s_errorRate r) (Num 5)) (sr_results res) of
              Some r \<Rightarrow> s_users r
            | None \<Rightarrow> s_users (last (sr_results res))),
         sr_breakingPoint res))
     (stressTest \<lparr>so_maxUsers = 2, so_stepSize = 1, so_stepDuration = 0.9,
                   so_maxDuration = 10, so_errorThreshold = 50\<rparr>
        [Settle 0 Resolved, Settle 0 Resolved, Settle 0 Rejected, Settle 0 Rejected,
         Settle 1 Rejected, Settle 0 Rejected, Settle 1 Rejected]
        (initial_world (\<lambda>n. 100 * int n)))
   = Some ([1, 2], [Num (100 / 3), Num 100], True, True, 1)"
proof -
  from demo_stress_run obtain res tr es' w' where
    run: "stressTest \<lparr>so_maxUsers = 2, so_stepSize = 1, so_stepDuration = 0.9,
                   so_maxDuration = 10, so_errorThreshold = 50\<rparr>
        [Settle 0 Resolved, Settle 0 Resolved, Settle 0 Rejected, Settle 0 Rejected,
         Settle 1 Rejected, Settle 0 Rejected, Settle 1 Rejected]
        (initial_world (\<lambda>n. 100 * int n)) = Some (res, tr, es', w')"
    and obs: "map s_users (sr_results res) = [1, 2]"
      "map s_errorRate (sr_results res) = [Num (100 / 3), Num 100]"
      "sr_breakingPoint res = 1"
    by auto
  from obs(1) have ne: "sr_results res \<noteq> []" by auto
  from breaking_point[OF run ne] show ?thesis
    unfolding run using obs ne by simp
qed


text \<open>With a positive step size the loop itself always ends: a run that does not
  return has a step whose actors never all return within the schedule.\<close>

lemma stress_loop_stuck:
  assumes pos: "0 < so_stepSize options"
    and none: "stress_loop options deadline users es results checks w = None"
  shows "\<exists>u e v. stress_step (so_stepDuration options) u e v = None"
  using none
proof (induction "nat (so_maxUsers options - users + 1)" arbitrary: users es results checks w
         rule: less_induct)
  case less
  from less.prems have le: "users \<le> so_maxUsers options"
    by (subst (asm) stress_loop.simps) (simp split: if_splits)
  from less.prems le have lt: "real_of_int (fst (date_now w)) < deadline"
    by (subst (asm) stress_loop.simps) (simp split: if_splits)
  show ?case
  proof (cases "stress_step (so_stepDuration options) users es (snd (date_now w))")
    case None
    then show ?thesis by blast
  next
    case (Some y)
    obtain r es1 w2 where y: "y = (r, es1, w2)" by (cases y) auto
    from less.prems le lt Some y have
      rec: "stress_loop options deadline (users + so_stepSize options) es1
              (results @ [r]) (checks @ [fst (date_now w)]) w2 = None"
      by (subst (asm) stress_loop.simps) (simp split: if_splits)
    have "nat (so_maxUsers options - (users + so_stepSize options) + 1)
            < nat (so_maxUsers options - users + 1)"
      using pos le by simp
    from less.hyps[OF this rec] show ?thesis .
  qed
qed





lemma stressTest_returns_empty:
  assumes "(so_maxDuration options \<le> 0 \<and> mono (clock w0))
         \<or> so_maxUsers options < so_stepSize options"
  shows "\<exists>res tr w'. stressTest options es w0 = Some (res, tr, es, w')
           \<and> sr_results res = [] \<and> sr_breakingPoint res = 0"
proof -
  let ?d = "real_of_int (clock w0 (Suc (tick w0))) + so_maxDuration options * 1000"
  let ?w3 = "w0\<lparr>metrics := \<lparr>m_responseTimes = [], m_throughput = [], m_errors = 0,
                         m_startTime = clock w0 (tick w0), m_endTime = 0\<rparr>,
                  tick := Suc (Suc (tick w0))\<rparr>"
  have "\<exists>tr w4. stress_loop options ?d (so_stepSize options) es [] [] ?w3 = Some (tr, [], es, w4)"
  proof (cases "so_stepSize options \<le> so_maxUsers options")
    case False
    then show ?thesis by (subst stress_loop.simps) simp
  next
    case True
    with assms have a: "so_maxDuration options \<le> 0" "mono (clock w0)" by auto
    from a(2) have "clock w0 (Suc (tick w0)) \<le> clock w0 (Suc (Suc (tick w0)))"
      by (simp add: mono_def)
    then have "real_of_int (clock w0 (Suc (tick w0)))
                 \<le> real_of_int (clock w0 (Suc (Suc (tick w0))))" by simp
    moreover have "so_maxDuration options * 1000 \<le> 0" using a(1) by simp
    ultimately have "\<not> real_of_int (fst (date_now ?w3)) < ?d" by (simp add: date_now_def)
    with True show ?thesis by (subst stress_loop.simps) simp
  qed
  then obtain tr w4 where
    l: "stress_loop options ?d (so_stepSize options) es [] [] ?w3 = Some (tr, [], es, w4)"
    by blast
  let ?w5 = "(snd (date_now w4))\<lparr>metrics := (metrics (snd (date_now w4)))
               \<lparr>m_endTime := fst (date_now w4)\<rparr>\<rparr>"
  obtain res w6 where g: "generateStressTestResult [] ?w5 = (res, w6)"
    by (cases "generateStressTestResult [] ?w5")
  have "stressTest options es w0 = Some (res, tr, es, w6)"
    unfolding stressTest_def Let_def using l g
    by (simp add: date_now_def resetMetrics_def)
  moreover from generateStressTestResult_fields[OF g]
  have "sr_results res = []" "sr_breakingPoint res = 0" by (simp_all add: or_else_def)
  ultimately show ?thesis by blast
qed

text \<open>
  Claim C8 (as amended: no option is validated; such a run completes with an empty
  result). A load run with a duration of zero or less (and a clock that does not
  run backwards), or with an actor count of zero or less (once the clock reaches
  the deadline), launches no actor, returns, and its result is zero-filled: no
  request, latencies 0, error rate 0, throughput 0 or NaN. A stress run with a
  maximum duration of zero or less (same clock), or with a step size above the
  maximum actor count, returns with no sample and the breaking point 0.
\<close>

theorem no_validation:
  "((lo_duration lopts \<le> 0 \<and> mono (clock w0))
      \<or> (lo_users lopts \<le> 0 \<and>
           (\<exists>n. real_of_int (clock w0 (Suc (tick w0))) + lo_duration lopts * 1000
                   \<le> real_of_int (clock w0 (Suc (Suc (tick w0)) + n))))
     \<longrightarrow> (\<exists>r w'. loadTest lopts es w0 = Some (r, es, w') \<and> zero_filled r))
 \<and> ((so_maxDuration sopts \<le> 0 \<and> mono (clock w0))
      \<or> so_maxUsers sopts < so_stepSize sopts
     \<longrightarrow> (\<exists>res tr w'. stressTest sopts es w0 = Some (res, tr, es, w')
            \<and> sr_results res = [] \<and> sr_breakingPoint res = 0))"
  using loadTest_returns_zero[of lopts w0 es] stressTest_returns_empty[of sopts w0 es]
  by blast

theorem no_validation_witness:
  "(lo_duration \<lparr>lo_duration = 0, lo_users = 5, lo_rampUpTime = None, lo_thinkTime = None\<rparr> \<le> 0
      \<and> mono (clock (initial_world (\<lambda>n. 1000 + int n))))
   \<and> (\<exists>r w'. loadTest \<lparr>lo_duration = 0, lo_users = 5, lo_rampUpTime = None, lo_thinkTime = None\<rparr>
                 [] (initial_world (\<lambda>n. 1000 + int n)) = Some (r, [], w') \<and> zero_filled r)
   \<and> (so_maxDuration \<lparr>so_maxUsers = 10, so_stepSize = 5, so_stepDuration = 1,
                        so_maxDuration = 0, so_errorThreshold = 50\<rparr> \<le> 0
      \<and> mono (clock (initial_world (\<lambda>n. 1000 + int n))))
   \<and> (\<exists>res tr w'. stressTest \<lparr>so_maxUsers = 10, so_stepSize = 5, so_stepDuration = 1,
                                so_maxDuration = 0, so_errorThreshold = 50\<rparr>
                      [] (initial_world (\<lambda>n. 1000 + int n)) = Some (res, tr, [], w')
                    \<and> sr_results res = [] \<and> sr_breakingPoint res = 0)"
proof -
  have m: "mono (clock (initial_world (\<lambda>n. 1000 + int n)))"
    by (simp add: mono_def initial_world_def)
  from no_validation
    [of "\<lparr>lo_duration = 0, lo_users = 5, lo_rampUpTime = None, lo_thinkTime = None\<rparr>"
        "initial_world (\<lambda>n. 1000 + int n)" "[]"
        "\<lparr>so_maxUsers = 10, so_stepSize = 5, so_stepDuration = 1,
          so_maxDuration = 0, so_errorThreshold = 50\<rparr>"] m
  show ?thesis by simp
qed

text \<open>A load run with a duration of zero returns a result.\<close>

theorem no_validation_counterexample:
  "map_option (\<lambda>(r, es', w'). r)
     (loadTest \<lparr>lo_duration = 0, lo_users = 5, lo_rampUpTime = None, lo_thinkTime = None\<rparr>
        [] (initial_world (\<lambda>n. 1000 + int n)))
   = Some \<lparr>lr_testType = ''Load Test'', lr_totalRequests = 0, lr_successfulRequests = 0,
            lr_failedRequests = 0, lr_avgResponseTime = 0, lr_minResponseTime = 0,
            lr_maxResponseTime = 0, lr_errorRate = 0, lr_throughput = Num 0,
            lr_duration = 3 / 1000, lr_timestamp = 1004\<rparr>"
  by code_simp

subsection \<open>Spike profile\<close>

lemma actor_ok_mono: "actor_ok t0 d c n a \<Longrightarrow> n \<le> n' \<Longrightarrow> actor_ok t0 d c n' a"
  unfolding actor_ok_def by (meson less_le_trans)

lemma latency_ok_mono:
  assumes "latency_ok t0 c n l" and "n \<le> n'"
  shows "latency_ok t0 c n' l"
proof -
  from assms(1) obtain a b where ab: "t0 \<le> a" "a < b" "b < n" "l = c b - c a"
    unfolding latency_ok_def by blast
  from ab(3) assms(2) have "b < n'" by simp
  with ab show ?thesis unfolding latency_ok_def by blast
qed

lemma phase_loop_effect:
  assumes "phase_loop d w = (s, w')"
  shows "clock w' = clock w" and "tick w < tick w'" and "resolved w' = resolved w"
    and "rejected w' = rejected w" and "metrics w' = metrics w"
    and "s \<noteq> AwaitThink"
    and "s = Exited \<Longrightarrow> d \<le> real_of_int (clock w (tick w))"
    and "s = AwaitOp st \<Longrightarrow> st = clock w (Suc (tick w)) \<and> tick w' = Suc (Suc (tick w))"
  using assms by (auto simp: phase_loop_def date_now_def split: if_splits)

lemma actor_ok_loop:
  assumes lp: "phase_loop d w = (s, w')" and t0: "t0 \<le> tick w" and e: "pa_endTime a = d"
  shows "actor_ok t0 d (clock w) (tick w') (a\<lparr>pa_state := s\<rparr>)"
proof -
  note eff = phase_loop_effect[OF lp]
  have t: "tick w < tick w'" by (rule eff(2))
  have ex: "\<exists>k. t0 \<le> k \<and> k < tick w' \<and> d \<le> real_of_int (clock w k)" if "s = Exited"
    using eff(7)[OF that] t t0 by (intro exI[of _ "tick w"]) simp
  have aw: "\<exists>k. t0 \<le> k \<and> k < tick w' \<and> st = clock w k" if "s = AwaitOp st" for st
    using eff(8)[OF that] t0 by (intro exI[of _ "Suc (tick w)"]) simp
  show ?thesis
    unfolding actor_ok_def using e eff(6) ex aw by simp
qed

lemma phase_inv_step:
  assumes inv: "phase_inv t0 d c r0 actors rts w"
    and w1: "clock w1 = c" "tick w \<le> tick w1" "resolved w1 = r0 + length rts1"
    and l: "\<forall>l \<in> set rts1. latency_ok t0 c (tick w1) l"
    and e: "pa_endTime a = d"
    and lp: "phase_loop d w1 = (s, w2)"
    and sub: "set actors1 \<subseteq> insert (a\<lparr>pa_state := s\<rparr>) (set actors)"
  shows "phase_inv t0 d c r0 actors1 rts1 w2"
proof -
  note eff = phase_loop_effect[OF lp]
  have t: "tick w1 \<le> tick w2" using eff(2) by simp
  have t0: "t0 \<le> tick w1" using inv w1(2) by (simp add: phase_inv_def)
  have new: "actor_ok t0 d c (tick w2) (a\<lparr>pa_state := s\<rparr>)"
    using actor_ok_loop[OF lp t0 e] w1(1) by simp
  have old: "\<forall>b \<in> set actors. actor_ok t0 d c (tick w2) b"
    using inv w1(2) t by (auto simp: phase_inv_def intro: actor_ok_mono)
  have all: "\<forall>b \<in> set actors1. actor_ok t0 d c (tick w2) b"
    using sub new old by auto
  have lat: "\<forall>l \<in> set rts1. latency_ok t0 c (tick w2) l"
    using l t by (auto intro: latency_ok_mono)
  have "clock w2 = c" using eff(1) w1(1) by simp
  moreover have "t0 \<le> tick w2" using t0 t by simp
  moreover have "resolved w2 = r0 + length rts1" using eff(3) w1(3) by simp
  ultimately show ?thesis
    unfolding phase_inv_def using all lat by blast
qed

lemma phase_inv_resume:
  assumes inv: "phase_inv t0 d c r0 actors rts w" and i: "i < length actors"
    and res: "phase_resume out (actors ! i) rts w = (a', rts', w')"
  shows "phase_inv t0 d c r0 (actors[i := a']) rts' w'"
proof -
  let ?a = "actors ! i"
  have mem: "?a \<in> set actors" using i by simp
  with inv have ok: "actor_ok t0 d c (tick w) ?a" by (simp add: phase_inv_def)
  then have e: "pa_endTime ?a = d" by (simp add: actor_ok_def)
  from inv have cw: "clock w = c" and r: "resolved w = r0 + length rts"
    and lat: "\<forall>l \<in> set rts. latency_ok t0 c (tick w) l"
    by (auto simp: phase_inv_def)
  show ?thesis
  proof (cases "pa_state ?a")
    case (AwaitOp start)
    from ok AwaitOp obtain k where k: "t0 \<le> k" "k < tick w" "start = c k"
      by (auto simp: actor_ok_def)
    show ?thesis
    proof (cases out)
      case Resolved
      let ?w1 = "w\<lparr>tick := Suc (tick w), resolved := Suc (resolved w)\<rparr>"
      let ?rts1 = "rts @ [clock w (tick w) - start]"
      obtain s w2 where lp: "phase_loop d ?w1 = (s, w2)" by (cases "phase_loop d ?w1")
      from res AwaitOp Resolved lp e have
        eq: "a' = ?a\<lparr>pa_state := s\<rparr>" "rts' = ?rts1" "w' = w2"
        by (auto simp: phase_resume_def date_now_def)
      have newl: "latency_ok t0 c (Suc (tick w)) (clock w (tick w) - start)"
        unfolding latency_ok_def using k cw by (intro exI[of _ k] exI[of _ "tick w"]) simp
      have l1: "\<forall>l \<in> set ?rts1. latency_ok t0 c (tick ?w1) l"
        using lat newl by (auto intro: latency_ok_mono)
      have "phase_inv t0 d c r0 (actors[i := ?a\<lparr>pa_state := s\<rparr>]) ?rts1 w2"
        by (rule phase_inv_step[OF inv _ _ _ l1 e lp set_update_subset_insert])
           (simp_all add: cw r)
      then show ?thesis by (simp add: eq)
    next
      case Rejected
      let ?w1 = "w\<lparr>rejected := Suc (rejected w)\<rparr>"
      let ?b = "?a\<lparr>pa_errors := pa_errors ?a + 1\<rparr>"
      obtain s w2 where lp: "phase_loop d ?w1 = (s, w2)" by (cases "phase_loop d ?w1")
      from res AwaitOp Rejected lp e have
        eq: "a' = ?b\<lparr>pa_state := s\<rparr>" "rts' = rts" "w' = w2"
        by (auto simp: phase_resume_def)
      have l1: "\<forall>l \<in> set rts. latency_ok t0 c (tick ?w1) l" using lat by simp
      have eb: "pa_endTime ?b = d" using e by simp
      have "phase_inv t0 d c r0 (actors[i := ?b\<lparr>pa_state := s\<rparr>]) rts w2"
        by (rule phase_inv_step[OF inv _ _ _ l1 eb lp set_update_subset_insert])
           (simp_all add: cw r)
      then show ?thesis by (simp add: eq)
    qed
  next
    case AwaitThink
    with res have "a' = ?a" "rts' = rts" "w' = w" by (auto simp: phase_resume_def)
    then show ?thesis using inv by simp
  next
    case Exited
    with res have "a' = ?a" "rts' = rts" "w' = w" by (auto simp: phase_resume_def)
    then show ?thesis using inv by simp
  qed
qed

lemma phase_inv_deliver:
  assumes inv: "phase_inv t0 d c r0 actors rts w"
    and del: "phase_deliver e actors rts w = (actors', rts', w')"
  shows "phase_inv t0 d c r0 actors' rts' w'"
proof (cases e)
  case (Settle i out)
  show ?thesis
  proof (cases "i < length actors")
    case True
    obtain a1 rts1 w1 where r: "phase_resume out (actors ! i) rts w = (a1, rts1, w1)"
      by (cases "phase_resume out (actors ! i) rts w") auto
    with del Settle True have "actors' = actors[i := a1]" "rts' = rts1" "w' = w1"
      by (auto simp: phase_deliver_def)
    with phase_inv_resume[OF inv True r] show ?thesis by simp
  next
    case False
    with del Settle inv show ?thesis by (auto simp: phase_deliver_def)
  qed
next
  case Tick
  with del inv show ?thesis by (auto simp: phase_deliver_def)
next
  case Wake
  with del inv show ?thesis by (auto simp: phase_deliver_def)
qed

lemma phase_inv_await:
  assumes "phase_await_all es actors rts w = Some (es', actors', rts', w')"
    and "phase_inv t0 d c r0 actors rts w"
  shows "phase_inv t0 d c r0 actors' rts' w' \<and> phase_exited actors' \<and> length actors' = length actors"
  using assms
proof (induction es arbitrary: actors rts w)
  case Nil
  then show ?case by (auto split: if_splits)
next
  case (Cons e es)
  show ?case
  proof (cases "phase_exited actors")
    case True
    with Cons.prems show ?thesis by auto
  next
    case False
    obtain a1 r1 w1 where d: "phase_deliver e actors rts w = (a1, r1, w1)"
      by (cases "phase_deliver e actors rts w") auto
    have len: "length a1 = length actors"
      using d by (auto simp: phase_deliver_def split: event.splits if_splits prod.splits)
    from Cons.prems(1) False d have "phase_await_all es a1 r1 w1 = Some (es', actors', rts', w')"
      by simp
    from Cons.IH[OF this phase_inv_deliver[OF Cons.prems(2) d]] len show ?thesis by simp
  qed
qed

lemma phase_inv_spawn:
  assumes "spawn_phase n d errs actors w = (actors', w')"
    and "phase_inv t0 d c r0 actors rts w"
  shows "phase_inv t0 d c r0 actors' rts w' \<and> length actors' = length actors + n"
  using assms
proof (induction n arbitrary: actors w)
  case 0
  then show ?case by simp
next
  case (Suc n)
  obtain s w1 where lp: "phase_loop d w = (s, w1)" by (cases "phase_loop d w")
  let ?a = "\<lparr>pa_endTime = d, pa_errors = errs, pa_state = s\<rparr>"
  from Suc.prems(1) lp have sp: "spawn_phase n d errs (actors @ [?a]) w1 = (actors', w')"
    by (simp add: simulateUserPhase_def)
  from Suc.prems(2) have cw: "clock w = c" and r: "resolved w = r0 + length rts"
    and lat: "\<forall>l \<in> set rts. latency_ok t0 c (tick w) l"
    by (auto simp: phase_inv_def)
  have "phase_inv t0 d c r0 (actors @ [?a]) rts w1"
    by (rule phase_inv_step[OF Suc.prems(2) cw _ r lat, where a = ?a and s = s])
       (use lp in auto)
  from Suc.IH[OF sp this] show ?case by simp
qed

lemma runPhase_spec:
  assumes run: "runPhase users duration es w = Some (r, sp, es', w')"
  shows "clock w' = clock w" and "sp_first sp = tick w" and "sp_next sp = tick w'"
    and "tick w < tick w'"
    and "sp_deadline sp = real_of_int (clock w (tick w)) + duration * 1000"
    and "s_users r = users"
    and "s_avgResponseTime r = average (sp_latencies sp)"
    and "s_errorRate r = error_rate 0 (length (sp_latencies sp))"
    and "sp_resolved sp = length (sp_latencies sp)"
    and "\<forall>l \<in> set (sp_latencies sp). latency_ok (Suc (tick w)) (clock w) (tick w') l"
    and "0 < users \<Longrightarrow>
           \<exists>k. tick w < k \<and> k < tick w' \<and> sp_deadline sp \<le> real_of_int (clock w k)"
proof -
  let ?d = "real_of_int (clock w (tick w)) + duration * 1000"
  let ?w1 = "w\<lparr>tick := Suc (tick w)\<rparr>"
  obtain actors w2 where sp: "spawn_phase (nat users) ?d 0 [] ?w1 = (actors, w2)"
    by (cases "spawn_phase (nat users) ?d 0 [] ?w1")
  from run sp obtain actors1 rts where
    aw: "phase_await_all es actors [] w2 = Some (es', actors1, rts, w')"
    and r: "r = \<lparr>s_users = users, s_avgResponseTime = average rts,
                 s_errorRate = error_rate 0 (length rts)\<rparr>"
    and s: "sp = \<lparr>sp_first = tick w, sp_next = tick w', sp_deadline = ?d, sp_latencies = rts,
                  sp_resolved = resolved w' - resolved w,
                  sp_rejected = rejected w' - rejected w\<rparr>"
    by (auto simp: runPhase_def date_now_def Let_def split: option.splits)
  have inv0: "phase_inv (Suc (tick w)) ?d (clock w) (resolved w) [] [] ?w1"
    by (simp add: phase_inv_def)
  from phase_inv_spawn[OF sp inv0] have
    inv1: "phase_inv (Suc (tick w)) ?d (clock w) (resolved w) actors [] w2"
    and len1: "length actors = nat users" by simp_all
  from phase_inv_await[OF aw inv1] have
    inv2: "phase_inv (Suc (tick w)) ?d (clock w) (resolved w) actors1 rts w'"
    and ex: "phase_exited actors1" and len2: "length actors1 = length actors" by simp_all
  show "clock w' = clock w" using inv2 by (simp add: phase_inv_def)
  show "sp_first sp = tick w" by (simp add: s)
  show "sp_next sp = tick w'" by (simp add: s)
  show "tick w < tick w'" using inv2 by (simp add: phase_inv_def)
  show "sp_deadline sp = ?d" by (simp add: s)
  show "s_users r = users" by (simp add: r)
  show "s_avgResponseTime r = average (sp_latencies sp)" by (simp add: r s)
  show "s_errorRate r = error_rate 0 (length (sp_latencies sp))" by (simp add: r s)
  show "sp_resolved sp = length (sp_latencies sp)" using inv2 by (simp add: s phase_inv_def)
  show "\<forall>l \<in> set (sp_latencies sp). latency_ok (Suc (tick w)) (clock w) (tick w') l"
    using inv2 by (simp add: s phase_inv_def)
  show "\<exists>k. tick w < k \<and> k < tick w' \<and> sp_deadline sp \<le> real_of_int (clock w k)"
    if "0 < users"
  proof -
    from that len1 len2 have "actors1 \<noteq> []" by auto
    then obtain a where a: "a \<in> set actors1" by (cases actors1) auto
    with ex have "pa_state a = Exited" by (simp add: phase_exited_def list_all_iff)
    moreover from inv2 a have "actor_ok (Suc (tick w)) ?d (clock w) (tick w') a"
      by (simp add: phase_inv_def)
    ultimately obtain k where "Suc (tick w) \<le> k" "k < tick w'" "?d \<le> real_of_int (clock w k)"
      by (auto simp: actor_ok_def)
    then show ?thesis by (intro exI[of _ k]) (simp add: s)
  qed
qed

lemma spikeTest_phases:
  assumes "spikeTest options es w0 = Some (res, spans, es', w')"
  shows "\<exists>wa r1 sp1 es1 w1 r2 sp2 es2 w2 r3 sp3 w3.
      clock wa = clock w0 \<and> tick wa = Suc (tick w0)
    \<and> runPhase (po_baseUsers options) (po_baseDuration options) es wa = Some (r1, sp1, es1, w1)
    \<and> runPhase (po_spikeUsers options) (po_spikeDuration options) es1 w1 = Some (r2, sp2, es2, w2)
    \<and> runPhase (po_baseUsers options) (po_recoveryDuration options) es2 w2 = Some (r3, sp3, es', w3)
    \<and> pr_results res = [label ''Base Load'' r1, label ''Spike Load'' r2, label ''Recovery'' r3]
    \<and> spans = [sp1, sp2, sp3]"
proof -
  let ?wa = "snd (date_now (resetMetrics w0))
               \<lparr>metrics := (metrics (snd (date_now (resetMetrics w0))))
                  \<lparr>m_startTime := fst (date_now (resetMetrics w0))\<rparr>\<rparr>"
  have wa: "clock ?wa = clock w0" "tick ?wa = Suc (tick w0)"
    by (simp_all add: date_now_def resetMetrics_def)
  from assms obtain r1 sp1 es1 w1 where
    p1: "runPhase (po_baseUsers options) (po_baseDuration options) es ?wa = Some (r1, sp1, es1, w1)"
    unfolding spikeTest_def by (auto split: option.splits prod.splits)
  from assms p1 obtain r2 sp2 es2 w2 where
    p2: "runPhase (po_spikeUsers options) (po_spikeDuration options) es1 w1 = Some (r2, sp2, es2, w2)"
    unfolding spikeTest_def by (auto split: option.splits prod.splits)
  from assms p1 p2 obtain r3 sp3 es3 w3 where
    p3: "runPhase (po_baseUsers options) (po_recoveryDuration options) es2 w2 = Some (r3, sp3, es3, w3)"
    unfolding spikeTest_def by (auto split: option.splits prod.splits)
  from assms p1 p2 p3 have
    "es3 = es' \<and> pr_results res = [label ''Base Load'' r1, label ''Spike Load'' r2, label ''Recovery'' r3]
      \<and> spans = [sp1, sp2, sp3]"
    unfolding spikeTest_def
    by (auto simp: generateSpikeTestResult_def split: option.splits prod.splits)
  with wa p1 p2 p3 show ?thesis by blast
qed

lemma label_fields:
  "s_phase (label n r) = n" "s_users (label n r) = s_users r"
  "s_avgResponseTime (label n r) = s_avgResponseTime r" "s_errorRate (label n r) = s_errorRate r"
  by (simp_all add: label_def)




text \<open>A spike run with one, two and one actors, in which four invocations complete
  and two fail.\<close>

lemma demo_spike_run:
  "map_option
     (\<lambda>(res, spans, es', w').
        (map s_phase (pr_results res), map s_users (pr_results res),
         map s_errorRate (pr_results res), map s_avgResponseTime (pr_results res), spans))
     (spikeTest \<lparr>po_baseUsers = 1, po_spikeUsers = 2, po_baseDuration = 0.5,
                  po_spikeDuration = 0.5, po_recoveryDuration = 0.5\<rparr>
        [Settle 0 Resolved, Settle 0 Rejected, Settle 1 Rejected, Settle 0 Resolved,
         Settle 0 Resolved, Settle 0 Resolved]
        (initial_world (\<lambda>n. 100 * int n)))
   = Some ([''Base Load'', ''Spike Load'', ''Recovery''], [1, 2, 1],
           [Num 0, Num 0, Num 0], [100, 400, 100],
           [\<lparr>sp_first = 1, sp_next = 8, sp_deadline = 600, sp_latencies = [100],
             sp_resolved = 1, sp_rejected = 1\<rparr>,
            \<lparr>sp_first = 8, sp_next = 16, sp_deadline = 1300, sp_latencies = [400],
             sp_resolved = 1, sp_rejected = 1\<rparr>,
            \<lparr>sp_first = 16, sp_next = 24, sp_deadline = 2100, sp_latencies = [100, 100],
             sp_resolved = 2, sp_rejected = 0\<rparr>])"
  by code_simp


text \<open>
  Claim C9. In a spike run in which every phase completed at least one invocation,
  every sample reports the error rate 0 and the average of the latencies of the
  completed invocations of its phase, however many invocations failed: the
  failures are counted in the actors' own copies of \<open>errors\<close>, and \<open>phaseErrors\<close>,
  from which the rate is computed, stays 0.
\<close>

theorem spike_error_rate_zero:
  assumes run: "spikeTest options es w0 = Some (res, spans, es', w')"
    and ok: "\<forall>sp \<in> set spans. 0 < sp_resolved sp"
  shows "(\<forall>s \<in> set (pr_results res). s_errorRate s = Num 0)
       \<and> map s_avgResponseTime (pr_results res) = map (\<lambda>sp. average (sp_latencies sp)) spans
       \<and> (\<forall>sp \<in> set spans. length (sp_latencies sp) = sp_resolved sp)"
proof -
  from spikeTest_phases[OF run] obtain wa r1 sp1 es1 w1 r2 sp2 es2 w2 r3 sp3 w3 where
    p1: "runPhase (po_baseUsers options) (po_baseDuration options) es wa = Some (r1, sp1, es1, w1)"
    and p2: "runPhase (po_spikeUsers options) (po_spikeDuration options) es1 w1 = Some (r2, sp2, es2, w2)"
    and p3: "runPhase (po_baseUsers options) (po_recoveryDuration options) es2 w2 = Some (r3, sp3, es', w3)"
    and rs: "pr_results res = [label ''Base Load'' r1, label ''Spike Load'' r2, label ''Recovery'' r3]"
    and sp: "spans = [sp1, sp2, sp3]"
    by blast
  note a = runPhase_spec[OF p1] and b = runPhase_spec[OF p2] and c = runPhase_spec[OF p3]
  from ok sp have pos: "0 < length (sp_latencies sp1)" "0 < length (sp_latencies sp2)"
    "0 < length (sp_latencies sp3)"
    using a(9) b(9) c(9) by simp_all
  have "\<forall>s \<in> set (pr_results res). s_errorRate s = Num 0"
    using pos by (simp add: rs label_fields a(8) b(8) c(8) error_rate_no_errors)
  moreover have "map s_avgResponseTime (pr_results res) = map (\<lambda>sp. average (sp_latencies sp)) spans"
    by (simp add: rs sp label_fields a(7) b(7) c(7))
  moreover have "\<forall>sp \<in> set spans. length (sp_latencies sp) = sp_resolved sp"
    by (simp add: sp a(9) b(9) c(9))
  ultimately show ?thesis by blast
qed

theorem spike_error_rate_zero_witness:
  "map_option
     (\<lambda>(res, spans, es', w').
        (map sp_resolved spans, map sp_rejected spans, list_all (\<lambda>sp. 0 < sp_resolved sp) spans,
         map s_errorRate (pr_results res), map s_avgResponseTime (pr_results res),
         map s_avgResponseTime (pr_results res) = map (\<lambda>sp. average (sp_latencies sp)) spans))
     (spikeTest \<lparr>po_baseUsers = 1, po_spikeUsers = 2, po_baseDuration = 0.5,
                  po_spikeDuration = 0.5, po_recoveryDuration = 0.5\<rparr>
        [Settle 0 Resolved, Settle 0 Rejected, Settle 1 Rejected, Settle 0 Resolved,
         Settle 0 Resolved, Settle 0 Resolved]
        (initial_world (\<lambda>n. 100 * int n)))
   = Some ([1, 1, 2], [1, 1, 0], True, [Num 0, Num 0, Num 0], [100, 400, 100], True)"
proof -
  from demo_spike_run obtain res spans es' w' where
    run: "spikeTest \<lparr>po_baseUsers = 1, po_spikeUsers = 2, po_baseDuration = 0.5,
                  po_spikeDuration = 0.5, po_recoveryDuration = 0.5\<rparr>
        [Settle 0 Resolved, Settle 0 Rejected, Settle 1 Rejected, Settle 0 Resolved,
         Settle 0 Resolved, Settle 0 Resolved]
        (initial_world (\<lambda>n. 100 * int n)) = Some (res, spans, es', w')"
    and obs: "spans =
           [\<lparr>sp_first = 1, sp_next = 8, sp_deadline = 600, sp_latencies = [100],
             sp_resolved = 1, sp_rejected = 1\<rparr>,
            \<lparr>sp_first = 8, sp_next = 16, sp_deadline = 1300, sp_latencies = [400],
             sp_resolved = 1, sp_rejected = 1\<rparr>,
            \<lparr>sp_first = 16, sp_next = 24, sp_deadline = 2100, sp_latencies = [100, 100],
             sp_resolved = 2, sp_rejected = 0\<rparr>]"
      "map s_errorRate (pr_results res) = [Num 0, Num 0, Num 0]"
      "map s_avgResponseTime (pr_results res) = [100, 400, 100]"
    by auto
  have ok: "\<forall>sp \<in> set spans. 0 < sp_resolved sp" by (simp add: obs(1))
  from spike_error_rate_zero[OF run ok] show ?thesis
    unfolding run using obs by simp
qed

text \<open>
  Claim C2, on the per-phase metrics. \<open>simulateUser\<close> keeps the claim on the shared
  metrics (\<open>loadTest_tally\<close>, \<open>stress_step_tally\<close>). \<open>simulateUserPhase\<close> does not: in
  the phase below one actor makes two invocations, the first completes and the
  second fails; when the phase ends \<open>phaseResponseTimes\<close> holds one latency and the
  error rate computed from \<open>phaseErrors\<close> is 0, so one outcome of the two is
  recorded nowhere in what feeds the result.
\<close>

theorem phase_failure_unrecorded:
  "map_option
     (\<lambda>(r, sp, es', w').
        (called w', sp_resolved sp, sp_rejected sp, sp_latencies sp, s_errorRate r))
     (runPhase 1 0.5 [Settle 0 Resolved, Settle 0 Rejected]
        (initial_world (\<lambda>n. 100 * int n)))
   = Some (2, 1, 1, [100], Num 0)"
  by code_simp

subsection \<open>Endurance profile\<close>











end
